theory Spec2Isabelle
  imports Main "HOL-Library.Word" "HOL-Library.Multiset" "HOL-Library.List_Lexorder"
    "HOL-Library.Char_ord"
begin

section \<open>Values, promises and the IndexedDB object store\<close>

text \<open>
  The cache of PDFoundry lives in two object stores of one IndexedDB database, \<open>Cache\<close>
  (url to bytes) and \<open>Meta\<close> (url to size and access date), reached through the private
  class \<open>IDBHelper\<close>. Keys are urls, that is JavaScript strings; IndexedDB keeps the
  records of an object store in ascending key order, which for strings is the
  lexicographic order of the code units.
\<close>

type_synonym key = string

type_synonym bytes = "8 word list"

text \<open>
  The errors the code can meet: the two \<open>CacheError\<close>s thrown by \<open>IDBHelper\<close>
  (database not initialized, key already exists), the
  \<open>TypeError\<close> of a property access on \<open>undefined\<close>, the \<open>ConstraintError\<close> with which
  IndexedDB fails an \<open>add\<close> on an occupied key, the string \<open>'Fetch failed.'\<close> that
  \<open>preload\<close> rejects with, and the rejection of \<open>fetch\<close> itself on a network error.
\<close>

datatype error =
    NotInitialized
  | KeyExists key
  | TypeError
  | ConstraintError
  | FetchFailed
  | NetworkError

text \<open>
  A promise is modelled by how it ends: it is resolved with a value, rejected with an
  error, or stays pending for ever. The last case is what JavaScript does when the
  exception is thrown where the promise cannot see it (inside an event handler or inside
  an \<open>async\<close> executor), and when a promise is chained on one that stays pending.
\<close>

datatype 'a outcome = Resolved 'a | Rejected error | Pending

text \<open>JavaScript distinguishes \<open>undefined\<close> from \<open>null\<close>; so does the model.\<close>

datatype 'a jsval = Undefined | Null | Val 'a

type_synonym 'v objstore = "(key \<times> 'v) list"

text \<open>
  The requests of \<open>IDBObjectStore\<close> that the helper issues. \<open>getKey\<close> answers the key
  of the matching record or \<open>undefined\<close>; \<open>get\<close> answers the value or \<open>undefined\<close>;
  \<open>add\<close> fails with \<open>ConstraintError\<close> when the key is occupied and inserts otherwise;
  \<open>delete\<close> removes the record if there is one; \<open>getAllKeys\<close> lists the keys in
  ascending order.
\<close>

definition store_getKey :: "key \<Rightarrow> 'v objstore \<Rightarrow> key jsval" where
  "store_getKey k st = (if k \<in> set (map fst st) then Val k else Undefined)"

definition store_get :: "key \<Rightarrow> 'v objstore \<Rightarrow> 'v jsval" where
  "store_get k st = (case map_of st k of None \<Rightarrow> Undefined | Some v \<Rightarrow> Val v)"

definition store_add :: "'v \<Rightarrow> key \<Rightarrow> 'v objstore \<Rightarrow> error + 'v objstore" where
  "store_add v k st =
     (if k \<in> set (map fst st) then Inl ConstraintError else Inr (insort_key fst (k, v) st))"

definition store_delete :: "key \<Rightarrow> 'v objstore \<Rightarrow> 'v objstore" where
  "store_delete k st = filter (\<lambda>p. fst p \<noteq> k) st"

definition store_getAllKeys :: "'v objstore \<Rightarrow> key list" where
  "store_getAllKeys st = map fst st"

text \<open>
  \<open>if (keyRequest.result)\<close> tests the answer of \<open>getKey\<close> for truthiness: \<open>undefined\<close>
  is falsy, and so is the empty string.
\<close>

definition truthy :: "key jsval \<Rightarrow> bool" where
  "truthy r = (case r of Val k \<Rightarrow> k \<noteq> [] | Undefined \<Rightarrow> False | Null \<Rightarrow> False)"

section \<open>IDBHelper\<close>

text \<open>
  Each method takes the flag \<open>ready\<close> (the getter of that name: whether \<open>this._db\<close> is
  defined, that is whether \<open>open\<close> has completed) and the object store named by
  \<open>storeName\<close>, and returns how its promise ends together with the object store
  afterwards. Requests against an open database succeed, except \<open>add\<close> on an occupied
  key.

  \<open>del\<close> and \<open>keys\<close> wrap \<open>newTransaction\<close> in \<open>try\<close>: on an undefined \<open>_db\<close> the
  \<open>TypeError\<close> is caught and the promise rejected with it.
\<close>

definition IDBHelper_del :: "bool \<Rightarrow> key \<Rightarrow> 'v objstore \<Rightarrow> unit outcome \<times> 'v objstore" where
  "IDBHelper_del ready key st =
     (if ready then (Resolved (), store_delete key st) else (Rejected TypeError, st))"

definition IDBHelper_keys :: "bool \<Rightarrow> 'v objstore \<Rightarrow> key list outcome" where
  "IDBHelper_keys ready st =
     (if ready then Resolved (store_getAllKeys st) else Rejected TypeError)"

text \<open>\<open>get\<close> throws inside the executor when \<open>_db\<close> is undefined, which rejects the promise.\<close>

definition IDBHelper_get :: "bool \<Rightarrow> key \<Rightarrow> 'v objstore \<Rightarrow> 'v jsval outcome" where
  "IDBHelper_get ready key st =
     (if \<not> ready then Rejected NotInitialized else Resolved (store_get key st))"

text \<open>
  \<open>set\<close>. The \<open>throw\<close> for an occupied key without \<open>force\<close> happens inside the
  \<open>onsuccess\<close> handler of the key request, not inside the executor: neither \<open>resolve\<close>
  nor \<open>reject\<close> is called, the transaction's \<open>onerror\<close> does not fire (the transaction
  is aborted, which is another event), and the promise stays pending; the \<open>KeyExists\<close>
  error reaches no caller. With \<open>force\<close> the record is deleted and the value added in the
  callback of \<open>del(...).then\<close>, which has no rejection handler. In both places
  \<open>resolve()\<close> follows \<open>store.add\<close> at once, so an \<open>add\<close> that IndexedDB fails later
  cannot reject the promise any more, and the failed \<open>add\<close> leaves the store as it was.
\<close>

definition IDBHelper_set ::
  "bool \<Rightarrow> key \<Rightarrow> 'v \<Rightarrow> 'v objstore \<Rightarrow> bool \<Rightarrow> unit outcome \<times> 'v objstore" where
  "IDBHelper_set ready key val st force =
     (if \<not> ready then (Rejected NotInitialized, st)
      else if truthy (store_getKey key st) then
        (if force then
           (case IDBHelper_del ready key st of
              (Resolved u, st1) \<Rightarrow>
                (Resolved (), case store_add val key st1 of Inl e \<Rightarrow> st1 | Inr st2 \<Rightarrow> st2)
            | (Rejected e, st1) \<Rightarrow> (Pending, st1)
            | (Pending, st1) \<Rightarrow> (Pending, st1))
         else (Pending, st))
      else (Resolved (), case store_add val key st of Inl e \<Rightarrow> st | Inr st2 \<Rightarrow> st2))"

section \<open>PDFCache\<close>

text \<open>
  \<open>CacheMeta\<close>. JavaScript numbers are modelled as integers (the sizes are array lengths
  and their sums, exact in a double below \<open>2^53\<close>). \<open>dateAccessed\<close> is stored as an ISO
  string written by \<open>new Date().toISOString()\<close> and read back by \<open>Date.parse\<close>; the model
  keeps the number of milliseconds the two convert between, and \<open>parseInt\<close> of an integral
  size is that size.
\<close>

record CacheMeta =
  size_meta :: int
  dateAccessed :: int

text \<open>
  What \<open>fetch\<close> resolves with: the \<open>ok\<close> flag of the response and the bytes that
  \<open>arrayBuffer()\<close> gives (reading the body is taken to succeed).
\<close>

record response =
  ok :: bool
  arrayBuffer :: bytes

text \<open>
  Modelled from the spec: the setting \<open>CacheSize\<close> that \<open>game.settings.get\<close> reads is
  registered outside the sources at hand; the specification gives the configured budget as
  an unsigned integer, here the field \<open>CacheSize\<close>, a number of mebibytes. The other
  fields are the state the static class works on: whether the helper holds an open
  database, the two object stores, and the urls requested from the byte source so far.
\<close>

record world =
  db :: bool
  CACHE :: "bytes objstore"
  META :: "CacheMeta objstore"
  CacheSize :: nat
  fetched :: "key list"

definition MAX_BYTES :: "world \<Rightarrow> int" where
  "MAX_BYTES w = int (CacheSize w) * 2 ^ 20"

text \<open>\<open>try { return await p } catch (error) { return null }\<close>\<close>

definition catch_null :: "'a jsval outcome \<Rightarrow> 'a jsval outcome" where
  "catch_null p = (case p of Resolved v \<Rightarrow> Resolved v | Rejected e \<Rightarrow> Resolved Null | Pending \<Rightarrow> Pending)"

definition getMeta :: "key \<Rightarrow> world \<Rightarrow> CacheMeta jsval outcome" where
  "getMeta key w = catch_null (IDBHelper_get (db w) key (META w))"

definition setMeta :: "key \<Rightarrow> CacheMeta \<Rightarrow> world \<Rightarrow> unit outcome \<times> world" where
  "setMeta key meta w =
     (case IDBHelper_set (db w) key meta (META w) True of (r, m) \<Rightarrow> (r, w\<lparr>META := m\<rparr>))"

text \<open>
  The body of \<open>getCache\<close>, given how the promise of \<open>get\<close> ends and what \<open>setMeta\<close> does
  with the record built from the bytes. \<open>bytes.length\<close> on \<open>undefined\<close> or \<open>null\<close> throws
  a \<open>TypeError\<close>, which the \<open>catch\<close> turns into \<open>null\<close> like every other error.
\<close>

definition getCache_try ::
  "int \<Rightarrow> bytes jsval outcome \<Rightarrow> (CacheMeta \<Rightarrow> unit outcome \<times> world) \<Rightarrow> world
     \<Rightarrow> bytes jsval outcome \<times> world" where
  "getCache_try now got put w =
     (case got of
        Rejected e \<Rightarrow> (Resolved Null, w)
      | Pending \<Rightarrow> (Pending, w)
      | Resolved Undefined \<Rightarrow> (Resolved Null, w)
      | Resolved Null \<Rightarrow> (Resolved Null, w)
      | Resolved (Val bs) \<Rightarrow>
          (case put \<lparr>size_meta = int (length bs), dateAccessed = now\<rparr> of
             (Resolved u, w') \<Rightarrow> (Resolved (Val bs), w')
           | (Rejected e, w') \<Rightarrow> (Resolved Null, w')
           | (Pending, w') \<Rightarrow> (Pending, w')))"

definition getCache :: "int \<Rightarrow> key \<Rightarrow> world \<Rightarrow> bytes jsval outcome \<times> world" where
  "getCache now key w =
     getCache_try now (IDBHelper_get (db w) key (CACHE w)) (\<lambda>meta. setMeta key meta w) w"

text \<open>
  \<open>prune\<close>, first loop: read the record of every key, add up the sizes and collect the
  records in the order of the keys.
\<close>

fun prune_read ::
  "bool \<Rightarrow> CacheMeta objstore \<Rightarrow> key list \<Rightarrow> int \<times> (key \<times> CacheMeta) list
     \<Rightarrow> (int \<times> (key \<times> CacheMeta) list) outcome" where
  "prune_read d st [] acc = Resolved acc"
| "prune_read d st (key # ks) (totalBytes, metas) =
     (case IDBHelper_get d key st of
        Resolved (Val meta) \<Rightarrow>
          prune_read d st ks (totalBytes + size_meta meta, metas @ [(key, meta)])
      | Resolved Undefined \<Rightarrow> Rejected TypeError
      | Resolved Null \<Rightarrow> Rejected TypeError
      | Rejected e \<Rightarrow> Rejected e
      | Pending \<Rightarrow> Pending)"

text \<open>
  Second loop: \<open>MAX_BYTES\<close> is read again in every round; the round stops the loop when
  the running total is below it and otherwise deletes the record from \<open>Meta\<close>, then from
  \<open>Cache\<close>, and takes its size off the total.
\<close>

fun prune_evict :: "(key \<times> CacheMeta) list \<Rightarrow> int \<Rightarrow> world \<Rightarrow> unit outcome \<times> world" where
  "prune_evict [] totalBytes w = (Resolved (), w)"
| "prune_evict (nxt # rest) totalBytes w =
     (if totalBytes < MAX_BYTES w then (Resolved (), w)
      else
        (case IDBHelper_del (db w) (fst nxt) (META w) of
           (Resolved u, m) \<Rightarrow>
             (case IDBHelper_del (db w) (fst nxt) (CACHE w) of
                (Resolved u', c) \<Rightarrow>
                  prune_evict rest (totalBytes - size_meta (snd nxt)) (w\<lparr>META := m, CACHE := c\<rparr>)
              | (Rejected e, c) \<Rightarrow> (Rejected e, w\<lparr>META := m, CACHE := c\<rparr>)
              | (Pending, c) \<Rightarrow> (Pending, w\<lparr>META := m, CACHE := c\<rparr>))
         | (Rejected e, m) \<Rightarrow> (Rejected e, w\<lparr>META := m\<rparr>)
         | (Pending, m) \<Rightarrow> (Pending, w\<lparr>META := m\<rparr>)))"

text \<open>
  The comparison function \<open>a.meta.dateAccessed - b.meta.dateAccessed\<close> orders the
  records by ascending date; \<open>Array.prototype.sort\<close> is stable, as is \<open>sort_key\<close>.
\<close>

definition prune :: "world \<Rightarrow> unit outcome \<times> world" where
  "prune w =
     (case IDBHelper_keys (db w) (META w) of
        Rejected e \<Rightarrow> (Rejected e, w)
      | Pending \<Rightarrow> (Pending, w)
      | Resolved keys \<Rightarrow>
          (case prune_read (db w) (META w) keys (0, []) of
             Rejected e \<Rightarrow> (Rejected e, w)
           | Pending \<Rightarrow> (Pending, w)
           | Resolved (totalBytes, metas) \<Rightarrow>
               prune_evict (sort_key (\<lambda>x. dateAccessed (snd x)) metas) totalBytes w))"

definition setCache :: "int \<Rightarrow> key \<Rightarrow> bytes \<Rightarrow> world \<Rightarrow> unit outcome \<times> world" where
  "setCache now key bs w =
     (let meta = \<lparr>size_meta = int (length bs), dateAccessed = now\<rparr> in
      case IDBHelper_set (db w) key bs (CACHE w) True of
        (Resolved u, c) \<Rightarrow>
          (case setMeta key meta (w\<lparr>CACHE := c\<rparr>) of
             (Resolved u', w') \<Rightarrow> prune w'
           | (Rejected e, w') \<Rightarrow> (Rejected e, w')
           | (Pending, w') \<Rightarrow> (Pending, w'))
      | (Rejected e, c) \<Rightarrow> (Rejected e, w\<lparr>CACHE := c\<rparr>)
      | (Pending, c) \<Rightarrow> (Pending, w\<lparr>CACHE := c\<rparr>))"

text \<open>
  \<open>preload\<close> builds its promise from an \<open>async\<close> executor: the promise is settled only
  by the calls of \<open>resolve\<close> and \<open>reject\<close> in the body, and an \<open>await\<close> in the body that
  throws (a rejected \<open>fetch\<close>, a rejected \<open>setCache\<close>) leaves it pending. \<open>net\<close> is the
  byte source, \<open>now1\<close> and \<open>now2\<close> are the clock readings of \<open>getCache\<close> and \<open>setCache\<close>.
\<close>

definition preload_fetch ::
  "(key \<Rightarrow> response outcome) \<Rightarrow> int \<Rightarrow> key \<Rightarrow> world \<Rightarrow> unit outcome \<times> world" where
  "preload_fetch net now2 key w =
     (let w1 = w\<lparr>fetched := fetched w @ [key]\<rparr> in
      case net key of
        Resolved resp \<Rightarrow>
          (if ok resp then
             (if 0 < length (arrayBuffer resp) then
                (case setCache now2 key (arrayBuffer resp) w1 of
                   (Resolved u, w2) \<Rightarrow> (Resolved (), w2)
                 | (Rejected e, w2) \<Rightarrow> (Pending, w2)
                 | (Pending, w2) \<Rightarrow> (Pending, w2))
              else (Rejected FetchFailed, w1))
           else (Rejected FetchFailed, w1))
      | Rejected e \<Rightarrow> (Pending, w1)
      | Pending \<Rightarrow> (Pending, w1))"

definition preload ::
  "(key \<Rightarrow> response outcome) \<Rightarrow> int \<Rightarrow> int \<Rightarrow> key \<Rightarrow> world \<Rightarrow> unit outcome \<times> world" where
  "preload net now1 now2 key w =
     (case getCache now1 key w of
        (Resolved (Val cachedBytes), w1) \<Rightarrow>
          (if 0 < length cachedBytes then (Resolved (), w1) else preload_fetch net now2 key w1)
      | (Resolved Null, w1) \<Rightarrow> preload_fetch net now2 key w1
      | (Resolved Undefined, w1) \<Rightarrow> (Pending, w1)
      | (Rejected e, w1) \<Rightarrow> (Pending, w1)
      | (Pending, w1) \<Rightarrow> (Pending, w1))"

section \<open>Notions used by the properties\<close>

text \<open>An object store holds one record per key.\<close>

definition unique_keys :: "'v objstore \<Rightarrow> bool" where
  "unique_keys st = distinct (map fst st)"

text \<open>The bytes that \<open>Meta\<close> accounts for: the sum of the sizes of its records.\<close>

definition total_meta :: "CacheMeta objstore \<Rightarrow> int" where
  "total_meta st = sum_list (map (\<lambda>p. size_meta (snd p)) st)"

text \<open>
  A caller that issues \<open>setCache\<close> calls one after the other, awaiting each: every
  call is given the clock reading, the key and the bytes.
\<close>

fun setCache_all :: "(int \<times> key \<times> bytes) list \<Rightarrow> world \<Rightarrow> unit outcome \<times> world" where
  "setCache_all [] w = (Resolved (), w)"
| "setCache_all ((now, key, bs) # calls) w =
     (case setCache now key bs w of
        (Resolved u, w') \<Rightarrow> setCache_all calls w'
      | (Rejected e, w') \<Rightarrow> (Rejected e, w')
      | (Pending, w') \<Rightarrow> (Pending, w'))"

section \<open>Sample states\<close>

text \<open>
  The state right after \<open>initialize\<close> on an empty database, with \<open>CacheSize\<close> set to
  \<open>c\<close> mebibytes.
\<close>

definition opened :: "nat \<Rightarrow> world" where
  "opened c = \<lparr>db = True, CACHE = [], META = [], CacheSize = c, fetched = []\<rparr>"

text \<open>Two files of 600000 bytes under a budget of one mebibyte, \<open>a\<close> accessed before \<open>b\<close>.\<close>

definition two_entries :: world where
  "two_entries = \<lparr>db = True,
     CACHE = [(''a'', replicate 600000 0), (''b'', replicate 600000 0)],
     META = [(''a'', \<lparr>size_meta = 600000, dateAccessed = 1\<rparr>),
             (''b'', \<lparr>size_meta = 600000, dateAccessed = 2\<rparr>)],
     CacheSize = 1, fetched = []\<rparr>"

text \<open>One file of exactly one mebibyte under a budget of one mebibyte.\<close>

definition full_world :: world where
  "full_world = \<lparr>db = True, CACHE = [(''a'', replicate 1048576 0)],
     META = [(''a'', \<lparr>size_meta = 1048576, dateAccessed = 1\<rparr>)], CacheSize = 1, fetched = []\<rparr>"

text \<open>
  Three files of 400000 bytes written under a budget of two mebibytes: \<open>a\<close> at time 1,
  then \<open>b\<close> at 2 and \<open>c\<close> at 3; \<open>a\<close> is read at 4; the budget is lowered to one
  mebibyte and a pass made.
\<close>

definition lru_w1 :: world where
  "lru_w1 = (opened 2)\<lparr>CACHE := [(''a'', replicate 400000 0)],
     META := [(''a'', \<lparr>size_meta = 400000, dateAccessed = 1\<rparr>)]\<rparr>"

definition lru_w2 :: world where
  "lru_w2 = (opened 2)\<lparr>CACHE := [(''a'', replicate 400000 0), (''b'', replicate 400000 0)],
     META := [(''a'', \<lparr>size_meta = 400000, dateAccessed = 1\<rparr>),
              (''b'', \<lparr>size_meta = 400000, dateAccessed = 2\<rparr>)]\<rparr>"

definition lru_w3 :: world where
  "lru_w3 = (opened 2)\<lparr>
     CACHE := [(''a'', replicate 400000 0), (''b'', replicate 400000 0), (''c'', replicate 400000 0)],
     META := [(''a'', \<lparr>size_meta = 400000, dateAccessed = 1\<rparr>),
              (''b'', \<lparr>size_meta = 400000, dateAccessed = 2\<rparr>),
              (''c'', \<lparr>size_meta = 400000, dateAccessed = 3\<rparr>)]\<rparr>"

definition lru_w4 :: world where
  "lru_w4 = lru_w3\<lparr>META := [(''a'', \<lparr>size_meta = 400000, dateAccessed = 4\<rparr>),
              (''b'', \<lparr>size_meta = 400000, dateAccessed = 2\<rparr>),
              (''c'', \<lparr>size_meta = 400000, dateAccessed = 3\<rparr>)]\<rparr>"

definition lru_w5 :: world where
  "lru_w5 = (opened 1)\<lparr>CACHE := [(''a'', replicate 400000 0), (''c'', replicate 400000 0)],
     META := [(''a'', \<lparr>size_meta = 400000, dateAccessed = 4\<rparr>),
              (''c'', \<lparr>size_meta = 400000, dateAccessed = 3\<rparr>)]\<rparr>"

text \<open>
  The same with keys \<open>a\<close>, then \<open>c\<close>, then \<open>b\<close>, where the clock reads 2 both when
  \<open>c\<close> and when \<open>b\<close> is written.
\<close>

definition tie_w3 :: world where
  "tie_w3 = \<lparr>db = True,
     CACHE = [(''a'', replicate 400000 0), (''b'', replicate 400000 0), (''c'', replicate 400000 0)],
     META = [(''a'', \<lparr>size_meta = 400000, dateAccessed = 1\<rparr>),
             (''b'', \<lparr>size_meta = 400000, dateAccessed = 2\<rparr>),
             (''c'', \<lparr>size_meta = 400000, dateAccessed = 2\<rparr>)],
     CacheSize = 2, fetched = []\<rparr>"

definition tie_w4 :: world where
  "tie_w4 = tie_w3\<lparr>META := [(''a'', \<lparr>size_meta = 400000, dateAccessed = 3\<rparr>),
             (''b'', \<lparr>size_meta = 400000, dateAccessed = 2\<rparr>),
             (''c'', \<lparr>size_meta = 400000, dateAccessed = 2\<rparr>)]\<rparr>"

definition tie_w5 :: world where
  "tie_w5 = tie_w4\<lparr>CacheSize := 1,
     CACHE := [(''a'', replicate 400000 0), (''c'', replicate 400000 0)],
     META := [(''a'', \<lparr>size_meta = 400000, dateAccessed = 3\<rparr>),
              (''c'', \<lparr>size_meta = 400000, dateAccessed = 2\<rparr>)]\<rparr>"

text \<open>
  The empty string as a key: the state after \<open>setCache('', [1])\<close> at time 1 on an empty
  cache.
\<close>

definition empty_key_world :: world where
  "empty_key_world = (opened 1)\<lparr>CACHE := [([], [1])],
     META := [([], \<lparr>size_meta = 1, dateAccessed = 1\<rparr>)]\<rparr>"

text \<open>
  Two byte sources: one whose \<open>fetch\<close> rejects (the network is down), one that answers
  every url with the same four bytes. The state after \<open>preload('u')\<close> from the second.
\<close>

definition down_net :: "key \<Rightarrow> response outcome" where
  "down_net url = Rejected NetworkError"



section \<open>Evaluating the model\<close>

lemmas model_defs = prune_def IDBHelper_keys_def store_getAllKeys_def IDBHelper_get_def store_get_def
  MAX_BYTES_def IDBHelper_del_def store_delete_def setCache_def setMeta_def IDBHelper_set_def
  truthy_def store_getKey_def store_add_def getCache_def getCache_try_def catch_null_def getMeta_def
  preload_def preload_fetch_def total_meta_def unique_keys_def

section \<open>Object stores keep one record per key\<close>

lemma store_delete_unique: "unique_keys st \<Longrightarrow> unique_keys (store_delete k st)"
  by (simp add: unique_keys_def store_delete_def distinct_map_filter)

lemma insort_unique:
  "unique_keys st \<Longrightarrow> k \<notin> set (map fst st) \<Longrightarrow> unique_keys (insort_key fst (k, v) st)"
  unfolding unique_keys_def
  by (induction st) (auto simp: set_insort_key)

lemma store_delete_absent: "k \<notin> set (map fst (store_delete k st))"
  by (auto simp: store_delete_def)

lemma IDBHelper_set_unique:
  "unique_keys st \<Longrightarrow> unique_keys (snd (IDBHelper_set d k v st f))"
  by (auto simp: IDBHelper_set_def IDBHelper_del_def store_add_def store_delete_unique
      insort_unique store_delete_absent split: sum.splits)

lemma prune_read_present:
  "set ks \<subseteq> set (map fst st) \<Longrightarrow>
   prune_read True st ks (t, ms) =
     Resolved (t + sum_list (map (\<lambda>k. size_meta (the (map_of st k))) ks),
               ms @ map (\<lambda>k. (k, the (map_of st k))) ks)"
proof (induction ks arbitrary: t ms)
  case Nil
  then show ?case by simp
next
  case (Cons k ks)
  then obtain m where m: "map_of st k = Some m"
    by (cases "map_of st k") (auto simp: map_of_eq_None_iff)
  with Cons show ?case
    by (simp add: IDBHelper_get_def store_get_def)
qed

lemma lookup_own_keys:
  "distinct (map fst st) \<Longrightarrow> map (\<lambda>k. (k, the (map_of st k))) (map fst st) = st"
proof -
  assume d: "distinct (map fst st)"
  have "\<And>p. p \<in> set st \<Longrightarrow> (fst p, the (map_of st (fst p))) = p"
  proof -
    fix p assume "p \<in> set st"
    then have "map_of st (fst p) = Some (snd p)" using d by simp
    then show "(fst p, the (map_of st (fst p))) = p" by simp
  qed
  then show ?thesis by (simp add: comp_def map_idI)
qed

lemma prune_read_store:
  assumes "unique_keys st"
  shows "prune_read True st (map fst st) (0, []) = Resolved (total_meta st, st)"
proof -
  have st: "map (\<lambda>k. (k, the (map_of st k))) (map fst st) = st"
    using assms lookup_own_keys unfolding unique_keys_def by blast
  have "sum_list (map (\<lambda>k. size_meta (the (map_of st k))) (map fst st))
        = sum_list (map (\<lambda>p. size_meta (snd p)) (map (\<lambda>k. (k, the (map_of st k))) (map fst st)))"
    by (simp add: comp_def)
  also have "\<dots> = total_meta st"
    by (simp only: st total_meta_def)
  finally show ?thesis
    using prune_read_present [of "map fst st" st 0 "[]"] st by simp
qed

lemma prune_evict_shape:
  "db w \<Longrightarrow>
   \<exists>n\<le>length xs.
     prune_evict xs t w =
       (Resolved (), w\<lparr>META := filter (\<lambda>p. fst p \<notin> fst ` set (take n xs)) (META w),
                       CACHE := filter (\<lambda>p. fst p \<notin> fst ` set (take n xs)) (CACHE w)\<rparr>)
     \<and> (\<forall>m<n. MAX_BYTES w \<le> t - sum_list (map (\<lambda>p. size_meta (snd p)) (take m xs)))
     \<and> (n = length xs \<or> t - sum_list (map (\<lambda>p. size_meta (snd p)) (take n xs)) < MAX_BYTES w)"
proof (induction xs arbitrary: t w)
  case Nil
  then show ?case by simp
next
  case (Cons x xs)
  show ?case
  proof (cases "t < MAX_BYTES w")
    case True
    then have "prune_evict (x # xs) t w = (Resolved (), w)" by simp
    with True show ?thesis by (intro exI [of _ 0]) simp
  next
    case False
    define w' where "w' = w\<lparr>META := store_delete (fst x) (META w),
                             CACHE := store_delete (fst x) (CACHE w)\<rparr>"
    have dbw': "db w'" and maxw': "MAX_BYTES w' = MAX_BYTES w"
      using Cons.prems by (simp_all add: w'_def MAX_BYTES_def)
    from Cons.IH [OF dbw', of "t - size_meta (snd x)"] obtain n where
      n: "n \<le> length xs"
      and run: "prune_evict xs (t - size_meta (snd x)) w' =
        (Resolved (), w'\<lparr>META := filter (\<lambda>p. fst p \<notin> fst ` set (take n xs)) (META w'),
                         CACHE := filter (\<lambda>p. fst p \<notin> fst ` set (take n xs)) (CACHE w')\<rparr>)"
      and before: "\<forall>m<n. MAX_BYTES w' \<le> t - size_meta (snd x) - sum_list (map (\<lambda>p. size_meta (snd p)) (take m xs))"
      and after: "n = length xs \<or> t - size_meta (snd x) - sum_list (map (\<lambda>p. size_meta (snd p)) (take n xs)) < MAX_BYTES w'"
      by blast
    have step: "prune_evict (x # xs) t w = prune_evict xs (t - size_meta (snd x)) w'"
      using False Cons.prems by (simp add: IDBHelper_del_def w'_def)
    have flt: "\<And>st::(key \<times> 'a) list. filter (\<lambda>p. fst p \<notin> fst ` set (take n xs)) (store_delete (fst x) st)
        = filter (\<lambda>p. fst p \<notin> fst ` set (take (Suc n) (x # xs))) st"
      by (auto simp: store_delete_def intro: filter_cong)
    have res: "prune_evict (x # xs) t w =
       (Resolved (), w\<lparr>META := filter (\<lambda>p. fst p \<notin> fst ` set (take (Suc n) (x # xs))) (META w),
                       CACHE := filter (\<lambda>p. fst p \<notin> fst ` set (take (Suc n) (x # xs))) (CACHE w)\<rparr>)"
      unfolding step run by (simp add: w'_def flt del: take_Suc_Cons)
    have bef: "\<forall>m<Suc n. MAX_BYTES w \<le> t - sum_list (map (\<lambda>p. size_meta (snd p)) (take m (x # xs)))"
    proof (intro allI impI)
      fix m assume "m < Suc n"
      show "MAX_BYTES w \<le> t - sum_list (map (\<lambda>p. size_meta (snd p)) (take m (x # xs)))"
      proof (cases m)
        case 0
        with False show ?thesis by simp
      next
        case (Suc m')
        with \<open>m < Suc n\<close> before maxw' show ?thesis by (simp add: algebra_simps)
      qed
    qed
    have aft: "Suc n = length (x # xs) \<or>
       t - sum_list (map (\<lambda>p. size_meta (snd p)) (take (Suc n) (x # xs))) < MAX_BYTES w"
      using after maxw' by (auto simp: algebra_simps)
    from n res bef aft show ?thesis
      by (intro exI [of _ "Suc n"]) (simp del: take_Suc_Cons)
  qed
qed

section \<open>What a pruning pass does\<close>

text \<open>
  On an open database the pass resolves, and it deletes the first \<open>n\<close> records of the
  date order from both stores, where the running total was at least \<open>MAX_BYTES\<close> before
  each of the \<open>n\<close> deletions and is below it afterwards unless every record is gone.
\<close>

lemma prune_shape:
  assumes uk: "unique_keys (META w)" and dbw: "db w"
  shows "\<exists>n\<le>length (META w).
     prune w =
       (Resolved (),
        w\<lparr>META := filter (\<lambda>p. fst p \<notin> fst ` set (take n (sort_key (\<lambda>x. dateAccessed (snd x)) (META w)))) (META w),
          CACHE := filter (\<lambda>p. fst p \<notin> fst ` set (take n (sort_key (\<lambda>x. dateAccessed (snd x)) (META w)))) (CACHE w)\<rparr>)
     \<and> (\<forall>m<n. MAX_BYTES w \<le> total_meta (META w) - total_meta (take m (sort_key (\<lambda>x. dateAccessed (snd x)) (META w))))
     \<and> (n = length (META w) \<or>
        total_meta (META w) - total_meta (take n (sort_key (\<lambda>x. dateAccessed (snd x)) (META w))) < MAX_BYTES w)"
proof -
  have "prune w = prune_evict (sort_key (\<lambda>x. dateAccessed (snd x)) (META w)) (total_meta (META w)) w"
    using dbw by (simp add: prune_def IDBHelper_keys_def store_getAllKeys_def prune_read_store [OF uk])
  with prune_evict_shape [OF dbw, of "sort_key (\<lambda>x. dateAccessed (snd x)) (META w)" "total_meta (META w)"]
  show ?thesis by (simp add: total_meta_def)
qed

lemma remaining_mset:
  assumes "distinct (map fst xs)" "mset xs = mset st"
  shows "mset (filter (\<lambda>p. fst p \<notin> fst ` set (take n xs)) st) = mset (drop n xs)"
proof -
  have "mset (filter (\<lambda>p. fst p \<notin> fst ` set (take n xs)) st)
        = mset (filter (\<lambda>p. fst p \<notin> fst ` set (take n xs)) xs)"
    using assms(2) by simp
  also have "filter (\<lambda>p. fst p \<notin> fst ` set (take n xs)) xs
        = filter (\<lambda>p. fst p \<notin> fst ` set (take n xs)) (take n xs @ drop n xs)"
    by simp
  also have "\<dots> = drop n xs"
  proof -
    have d: "distinct (map fst (take n xs) @ map fst (drop n xs))"
      using assms(1) by (simp flip: map_append)
    have a: "filter (\<lambda>p. fst p \<notin> fst ` set (take n xs)) (take n xs) = []"
      by (auto simp: filter_empty_conv)
    have b: "filter (\<lambda>p. fst p \<notin> fst ` set (take n xs)) (drop n xs) = drop n xs"
      using d by (auto simp: filter_id_conv)
    show ?thesis unfolding filter_append a b by simp
  qed
  finally show ?thesis .
qed

lemma total_meta_mset: "mset xs = mset ys \<Longrightarrow> total_meta xs = total_meta ys"
proof -
  assume "mset xs = mset ys"
  then have "mset (map (\<lambda>p. size_meta (snd p)) xs) = mset (map (\<lambda>p. size_meta (snd p)) ys)"
    by simp
  then have "sum_mset (mset (map (\<lambda>p. size_meta (snd p)) xs)) = sum_mset (mset (map (\<lambda>p. size_meta (snd p)) ys))"
    by (rule arg_cong)
  then show ?thesis by (simp only: sum_mset_sum_list total_meta_def)
qed

lemma total_meta_split: "total_meta xs = total_meta (take n xs) + total_meta (drop n xs)"
proof -
  have "total_meta xs = total_meta (take n xs @ drop n xs)" by simp
  also have "\<dots> = total_meta (take n xs) + total_meta (drop n xs)"
    unfolding total_meta_def map_append sum_list_append ..
  finally show ?thesis .
qed

lemma unique_keys_mset:
  "mset xs = mset st \<Longrightarrow> unique_keys st \<Longrightarrow> unique_keys xs"
proof -
  assume a: "mset xs = mset st" and u: "unique_keys st"
  from a have "mset (map fst xs) = mset (map fst st)" by simp
  then show ?thesis using u unfolding unique_keys_def by (metis mset_eq_imp_distinct_iff)
qed

lemma remaining_total:
  assumes "unique_keys st" "mset xs = mset st"
  shows "total_meta (filter (\<lambda>p. fst p \<notin> fst ` set (take n xs)) st)
         = total_meta st - total_meta (take n xs)"
proof -
  have "distinct (map fst xs)"
    using unique_keys_mset [OF assms(2) assms(1)] by (simp add: unique_keys_def)
  then have "total_meta (filter (\<lambda>p. fst p \<notin> fst ` set (take n xs)) st) = total_meta (drop n xs)"
    using remaining_mset [OF _ assms(2)] total_meta_mset by blast
  moreover have "total_meta st = total_meta xs"
    using assms(2) total_meta_mset by metis
  ultimately show ?thesis using total_meta_split [of xs n] by simp
qed

lemma remaining_none:
  assumes "mset xs = mset st"
  shows "filter (\<lambda>p. fst p \<notin> fst ` set (take (length st) xs)) st = []"
proof -
  have "length xs = length st" using assms by (metis size_mset)
  moreover have "set xs = set st" using assms by (metis set_mset_mset)
  ultimately show ?thesis by (auto simp: filter_empty_conv)
qed

lemma prune_total:
  assumes uk: "unique_keys (META w)" and res: "prune w = (Resolved (), w')"
  shows "total_meta (META w') < MAX_BYTES w \<or> META w' = []"
proof -
  have dbw: "db w"
    using res by (cases "db w") (auto simp: prune_def IDBHelper_keys_def)
  let ?xs = "sort_key (\<lambda>x. dateAccessed (snd x)) (META w)"
  from prune_shape [OF uk dbw] res obtain n where
    n: "n \<le> length (META w)"
    and w': "w' = w\<lparr>META := filter (\<lambda>p. fst p \<notin> fst ` set (take n ?xs)) (META w),
          CACHE := filter (\<lambda>p. fst p \<notin> fst ` set (take n ?xs)) (CACHE w)\<rparr>"
    and stop: "n = length (META w) \<or> total_meta (META w) - total_meta (take n ?xs) < MAX_BYTES w"
    by auto
  have m: "mset ?xs = mset (META w)" by simp
  from stop show ?thesis
  proof
    assume "n = length (META w)"
    then have "META w' = []" using remaining_none [OF m] by (simp add: w')
    then show ?thesis ..
  next
    assume "total_meta (META w) - total_meta (take n ?xs) < MAX_BYTES w"
    then have "total_meta (META w') < MAX_BYTES w"
      using remaining_total [OF uk m, of n] by (simp add: w')
    then show ?thesis ..
  qed
qed

lemma prune_resolved_db: "prune w = (Resolved u, w') \<Longrightarrow> db w"
  by (cases "db w") (auto simp: prune_def IDBHelper_keys_def)

lemma prune_keeps:
  assumes uk: "unique_keys (META w)" and res: "prune w = (Resolved (), w')"
  shows "unique_keys (META w') \<and> CacheSize w' = CacheSize w \<and> db w' = db w \<and> fetched w' = fetched w"
proof -
  from prune_shape [OF uk prune_resolved_db [OF res]] res obtain n where
    "w' = w\<lparr>META := filter (\<lambda>p. fst p \<notin> fst ` set (take n (sort_key (\<lambda>x. dateAccessed (snd x)) (META w)))) (META w),
          CACHE := filter (\<lambda>p. fst p \<notin> fst ` set (take n (sort_key (\<lambda>x. dateAccessed (snd x)) (META w)))) (CACHE w)\<rparr>"
    by auto
  then show ?thesis using uk by (simp add: unique_keys_def distinct_map_filter)
qed

lemma setCache_resolved:
  assumes uk: "unique_keys (META w)" and res: "setCache now key bs w = (Resolved (), w')"
  shows "\<exists>w2. prune w2 = (Resolved (), w') \<and> unique_keys (META w2) \<and> CacheSize w2 = CacheSize w"
proof -
  obtain r1 c where s1: "IDBHelper_set (db w) key bs (CACHE w) True = (r1, c)"
    by (cases "IDBHelper_set (db w) key bs (CACHE w) True")
  obtain r2 m where s2: "IDBHelper_set (db w) key \<lparr>size_meta = int (length bs), dateAccessed = now\<rparr> (META w) True = (r2, m)"
    by (cases "IDBHelper_set (db w) key \<lparr>size_meta = int (length bs), dateAccessed = now\<rparr> (META w) True")
  have um: "unique_keys m"
    using IDBHelper_set_unique [OF uk, of "db w" key _ True] s2 by (metis snd_conv)
  have "prune (w\<lparr>CACHE := c, META := m\<rparr>) = (Resolved (), w')"
    using res s1 s2 by (auto simp: setCache_def setMeta_def Let_def split: outcome.splits)
  then show ?thesis using um by (intro exI [of _ "w\<lparr>CACHE := c, META := m\<rparr>"]) simp
qed

lemma setCache_budget:
  assumes uk: "unique_keys (META w)" and res: "setCache now key bs w = (Resolved (), w')"
  shows "unique_keys (META w') \<and> CacheSize w' = CacheSize w
         \<and> (total_meta (META w') < MAX_BYTES w' \<or> META w' = [])"
proof -
  from setCache_resolved [OF uk res] obtain w2 where
    p: "prune w2 = (Resolved (), w')" and u2: "unique_keys (META w2)" and c2: "CacheSize w2 = CacheSize w"
    by blast
  from prune_keeps [OF u2 p] prune_total [OF u2 p] c2 show ?thesis
    by (simp add: MAX_BYTES_def)
qed

lemma setCache_all_budget:
  "calls \<noteq> [] \<Longrightarrow> unique_keys (META w) \<Longrightarrow> setCache_all calls w = (Resolved (), w') \<Longrightarrow>
   total_meta (META w') < MAX_BYTES w' \<or> META w' = []"
proof (induction calls arbitrary: w)
  case Nil
  then show ?case by simp
next
  case (Cons call calls)
  obtain now key bs where call: "call = (now, key, bs)" by (cases call)
  from Cons.prems(3) obtain w1 where
    first: "setCache now key bs w = (Resolved (), w1)" and rest: "setCache_all calls w1 = (Resolved (), w')"
    by (auto simp: call split: prod.splits outcome.splits)
  note b = setCache_budget [OF Cons.prems(2) first]
  show ?case
  proof (cases "calls = []")
    case True
    with rest b show ?thesis by simp
  next
    case False
    from Cons.IH [OF False _ rest] b show ?thesis by simp
  qed
qed

section \<open>C1: the budget after a pruning pass\<close>

text \<open>
  C1. For every state of \<open>Meta\<close> (an object store, so with one record per key) and every
  configured budget: when \<open>prune\<close> resolves, the sizes of the records left in \<open>Meta\<close> add
  up to at most the budget, or \<open>Meta\<close> holds no record at all; and after any non-empty
  sequence of \<open>setCache\<close> calls that all resolve, the total that \<open>Meta\<close> accounts for is
  at most the budget.
\<close>

theorem prune_within_budget:
  assumes "unique_keys (META w)"
  shows "(prune w = (Resolved (), w') \<longrightarrow> total_meta (META w') \<le> MAX_BYTES w \<or> META w' = [])
       \<and> (calls \<noteq> [] \<and> setCache_all calls w = (Resolved (), w'')
            \<longrightarrow> total_meta (META w'') \<le> MAX_BYTES w'')"
proof (intro conjI impI)
  assume "prune w = (Resolved (), w')"
  from prune_total [OF assms this] show "total_meta (META w') \<le> MAX_BYTES w \<or> META w' = []"
    by auto
next
  assume "calls \<noteq> [] \<and> setCache_all calls w = (Resolved (), w'')"
  with setCache_all_budget [OF _ assms] have "total_meta (META w'') < MAX_BYTES w'' \<or> META w'' = []"
    by blast
  then show "total_meta (META w'') \<le> MAX_BYTES w''"
    by (auto simp: total_meta_def MAX_BYTES_def)
qed

theorem prune_within_budget_witness:
  "unique_keys (META two_entries)
   \<and> prune two_entries = (Resolved (), two_entries\<lparr>META := [(''b'', \<lparr>size_meta = 600000, dateAccessed = 2\<rparr>)], CACHE := [(''b'', replicate 600000 0)]\<rparr>)
   \<and> total_meta [(''b'', \<lparr>size_meta = 600000, dateAccessed = 2\<rparr>)] \<le> MAX_BYTES two_entries
   \<and> setCache_all [(3, ''c'', replicate 600000 0)] two_entries
       = (Resolved (), two_entries\<lparr>META := [(''c'', \<lparr>size_meta = 600000, dateAccessed = 3\<rparr>)], CACHE := [(''c'', replicate 600000 0)]\<rparr>)
   \<and> total_meta [(''c'', \<lparr>size_meta = 600000, dateAccessed = 3\<rparr>)] \<le> MAX_BYTES two_entries"
  using prune_within_budget [of two_entries
     "two_entries\<lparr>META := [(''b'', \<lparr>size_meta = 600000, dateAccessed = 2\<rparr>)], CACHE := [(''b'', replicate 600000 0)]\<rparr>"
     "[(3, ''c'', replicate 600000 0)]"
     "two_entries\<lparr>META := [(''c'', \<lparr>size_meta = 600000, dateAccessed = 3\<rparr>)], CACHE := [(''c'', replicate 600000 0)]\<rparr>"]
  by (simp add: two_entries_def model_defs)

section \<open>C2: when a pass deletes\<close>

text \<open>
  C2 as stated says that a total equal to the budget deletes nothing. The loop leaves
  only when \<open>totalBytes < MAX_BYTES\<close>: a store whose total is exactly the budget loses
  its oldest record (here its only one).
\<close>

theorem prune_at_budget_counterexample:
  "total_meta (META full_world) \<le> MAX_BYTES full_world \<and>
   prune full_world = (Resolved (), full_world\<lparr>META := [], CACHE := []\<rparr>)"
  by (simp add: full_world_def model_defs)

text \<open>
  C2, amended. \<open>prune\<close> deletes only while the running total is not below the budget:
  when the total of \<open>Meta\<close> is strictly below the budget the pass changes nothing, and on
  an open database a pass deletes a prefix of the date order such that the running total
  was at least the budget before each deletion, and it stops as soon as the running total
  is strictly below the budget or every record has been visited.
\<close>

theorem prune_deletes_while_not_below:
  assumes uk: "unique_keys (META w)"
  shows "(total_meta (META w) < MAX_BYTES w \<longrightarrow> snd (prune w) = w)
       \<and> (db w \<longrightarrow> (\<exists>n\<le>length (META w).
             prune w =
               (Resolved (),
                w\<lparr>META := filter (\<lambda>p. fst p \<notin> fst ` set (take n (sort_key (\<lambda>x. dateAccessed (snd x)) (META w)))) (META w),
                  CACHE := filter (\<lambda>p. fst p \<notin> fst ` set (take n (sort_key (\<lambda>x. dateAccessed (snd x)) (META w)))) (CACHE w)\<rparr>)
             \<and> (\<forall>m<n. MAX_BYTES w \<le> total_meta (META w) - total_meta (take m (sort_key (\<lambda>x. dateAccessed (snd x)) (META w))))
             \<and> (n = length (META w) \<or>
                total_meta (META w) - total_meta (take n (sort_key (\<lambda>x. dateAccessed (snd x)) (META w))) < MAX_BYTES w)))"
proof (intro conjI impI)
  assume below: "total_meta (META w) < MAX_BYTES w"
  show "snd (prune w) = w"
  proof (cases "db w")
    case False
    then show ?thesis by (simp add: prune_def IDBHelper_keys_def)
  next
    case True
    let ?xs = "sort_key (\<lambda>x. dateAccessed (snd x)) (META w)"
    from prune_shape [OF uk True] obtain n where
      res: "prune w = (Resolved (),
          w\<lparr>META := filter (\<lambda>p. fst p \<notin> fst ` set (take n ?xs)) (META w),
            CACHE := filter (\<lambda>p. fst p \<notin> fst ` set (take n ?xs)) (CACHE w)\<rparr>)"
      and before: "\<forall>m<n. MAX_BYTES w \<le> total_meta (META w) - total_meta (take m ?xs)"
      by blast
    have "n = 0"
    proof (rule ccontr)
      assume "n \<noteq> 0"
      then have "MAX_BYTES w \<le> total_meta (META w) - total_meta (take 0 ?xs)"
        using before by blast
      with below show False by (simp add: total_meta_def)
    qed
    with res show ?thesis by simp
  qed
next
  assume "db w"
  from prune_shape [OF uk this] show "\<exists>n\<le>length (META w).
             prune w =
               (Resolved (),
                w\<lparr>META := filter (\<lambda>p. fst p \<notin> fst ` set (take n (sort_key (\<lambda>x. dateAccessed (snd x)) (META w)))) (META w),
                  CACHE := filter (\<lambda>p. fst p \<notin> fst ` set (take n (sort_key (\<lambda>x. dateAccessed (snd x)) (META w)))) (CACHE w)\<rparr>)
             \<and> (\<forall>m<n. MAX_BYTES w \<le> total_meta (META w) - total_meta (take m (sort_key (\<lambda>x. dateAccessed (snd x)) (META w))))
             \<and> (n = length (META w) \<or>
                total_meta (META w) - total_meta (take n (sort_key (\<lambda>x. dateAccessed (snd x)) (META w))) < MAX_BYTES w)" .
qed

theorem prune_deletes_while_not_below_witness:
  "unique_keys (META (two_entries\<lparr>CacheSize := 2\<rparr>))
   \<and> total_meta (META (two_entries\<lparr>CacheSize := 2\<rparr>)) < MAX_BYTES (two_entries\<lparr>CacheSize := 2\<rparr>)
   \<and> snd (prune (two_entries\<lparr>CacheSize := 2\<rparr>)) = two_entries\<lparr>CacheSize := 2\<rparr>
   \<and> unique_keys (META two_entries) \<and> db two_entries
   \<and> fst (prune two_entries) = Resolved ()"
proof -
  have u2: "unique_keys (META (two_entries\<lparr>CacheSize := 2\<rparr>))"
    and u1: "unique_keys (META two_entries)"
    by (simp_all add: two_entries_def unique_keys_def)
  have below: "total_meta (META (two_entries\<lparr>CacheSize := 2\<rparr>)) < MAX_BYTES (two_entries\<lparr>CacheSize := 2\<rparr>)"
    by (simp add: two_entries_def total_meta_def MAX_BYTES_def)
  have d: "db two_entries" by (simp add: two_entries_def)
  from prune_deletes_while_not_below [OF u2] below
  have same: "snd (prune (two_entries\<lparr>CacheSize := 2\<rparr>)) = two_entries\<lparr>CacheSize := 2\<rparr>"
    by blast
  from prune_deletes_while_not_below [OF u1] d
  have "fst (prune two_entries) = Resolved ()" by auto
  with u2 u1 below d same show ?thesis by blast
qed

section \<open>Writes and reads that go through\<close>

text \<open>
  With \<open>force\<close>, \<open>set\<close> replaces the record unless the key is the empty string and
  occupied; \<open>insort_key fst (k, v) (store_delete k st)\<close> is the store with the record
  of \<open>k\<close> replaced by \<open>v\<close>.
\<close>

lemma store_delete_absent_id: "k \<notin> fst ` set st \<Longrightarrow> store_delete k st = st"
  by (auto simp: store_delete_def filter_id_conv)

lemma IDBHelper_set_force:
  "k \<noteq> [] \<or> k \<notin> fst ` set st \<Longrightarrow>
   IDBHelper_set True k v st True = (Resolved (), insort_key fst (k, v) (store_delete k st))"
  using store_delete_absent [of k st]
  by (auto simp: IDBHelper_set_def IDBHelper_del_def truthy_def store_getKey_def store_add_def
      store_delete_absent_id)

lemma map_of_insort:
  "k \<notin> fst ` set st \<Longrightarrow> map_of (insort_key fst (k, v) st) = (map_of st)(k \<mapsto> v)"
  by (induction st) (auto simp: fun_upd_twist)

lemma map_of_store_delete: "map_of (store_delete k st) = (map_of st)(k := None)"
  by (induction st) (auto simp: store_delete_def)

lemma map_of_upsert:
  "map_of (insort_key fst (k, v) (store_delete k st)) = (map_of st)(k \<mapsto> v)"
  using store_delete_absent [of k st] by (simp add: map_of_insort map_of_store_delete)

lemma mset_upsert:
  "mset (insort_key fst (k, v) (store_delete k st)) = add_mset (k, v) {#p \<in># mset st. fst p \<noteq> k#}"
  by (simp add: store_delete_def)

lemma sort_key_three:
  assumes m: "mset st = {#x, y, z#}" and xy: "f x < f y" and yz: "f y < (f z :: int)"
  shows "sort_key f st = [x, y, z]"
proof (rule properties_for_sort_key)
  show "mset [x, y, z] = mset st" using m by simp
  show "sorted (map f [x, y, z])" using xy yz by simp
  fix k assume k: "k \<in> set [x, y, z]"
  have "mset (filter (\<lambda>e. f k = f e) st) = {#e \<in># {#x, y, z#}. f k = f e#}"
    using m by simp
  also have "\<dots> = {#k#}" using k xy yz by auto
  finally have "filter (\<lambda>e. f k = f e) st = [k]" unfolding mset_single_iff .
  moreover have "filter (\<lambda>e. f k = f e) [x, y, z] = [k]" using k xy yz by auto
  ultimately show "filter (\<lambda>e. f k = f e) [x, y, z] = filter (\<lambda>e. f k = f e) st" by simp
qed

lemma prune_below:
  assumes uk: "unique_keys (META w)" and dbw: "db w" and below: "total_meta (META w) < MAX_BYTES w"
  shows "prune w = (Resolved (), w)"
proof -
  let ?xs = "sort_key (\<lambda>x. dateAccessed (snd x)) (META w)"
  from prune_shape [OF uk dbw] obtain n where
    res: "prune w = (Resolved (),
        w\<lparr>META := filter (\<lambda>p. fst p \<notin> fst ` set (take n ?xs)) (META w),
          CACHE := filter (\<lambda>p. fst p \<notin> fst ` set (take n ?xs)) (CACHE w)\<rparr>)"
    and before: "\<forall>m<n. MAX_BYTES w \<le> total_meta (META w) - total_meta (take m ?xs)"
    by blast
  have "n = 0"
  proof (rule ccontr)
    assume "n \<noteq> 0"
    then have "MAX_BYTES w \<le> total_meta (META w) - total_meta (take 0 ?xs)"
      using before by blast
    with below show False by (simp add: total_meta_def)
  qed
  with res show ?thesis by simp
qed

text \<open>
  On an open database, and unless the key is the empty string and occupied, \<open>setCache\<close>
  replaces the entry in \<open>Cache\<close>, then the record in \<open>Meta\<close>, then prunes.
\<close>

lemma setCache_writes:
  assumes "db w" "key \<noteq> [] \<or> (key \<notin> fst ` set (CACHE w) \<and> key \<notin> fst ` set (META w))"
  shows "setCache now key bs w =
     prune (w\<lparr>CACHE := insort_key fst (key, bs) (store_delete key (CACHE w)),
              META := insort_key fst (key, \<lparr>size_meta = int (length bs), dateAccessed = now\<rparr>)
                        (store_delete key (META w))\<rparr>)"
proof -
  have c: "IDBHelper_set True key bs (CACHE w) True
      = (Resolved (), insort_key fst (key, bs) (store_delete key (CACHE w)))"
    using assms(2) by (intro IDBHelper_set_force) auto
  have m: "IDBHelper_set True key \<lparr>size_meta = int (length bs), dateAccessed = now\<rparr> (META w) True
      = (Resolved (), insort_key fst (key, \<lparr>size_meta = int (length bs), dateAccessed = now\<rparr>)
                        (store_delete key (META w)))"
    using assms(2) by (intro IDBHelper_set_force) auto
  show ?thesis using assms(1) c m by (simp add: setCache_def setMeta_def)
qed

text \<open>A write that fits: both records are replaced and the pass changes nothing.\<close>

lemma setCache_fits:
  assumes dbw: "db w" and uk: "unique_keys (META w)"
    and key: "key \<noteq> [] \<or> (key \<notin> fst ` set (CACHE w) \<and> key \<notin> fst ` set (META w))"
    and fits: "total_meta (insort_key fst (key, \<lparr>size_meta = int (length bs), dateAccessed = now\<rparr>)
                 (store_delete key (META w))) < MAX_BYTES w"
  shows "setCache now key bs w =
     (Resolved (), w\<lparr>CACHE := insort_key fst (key, bs) (store_delete key (CACHE w)),
                     META := insort_key fst (key, \<lparr>size_meta = int (length bs), dateAccessed = now\<rparr>)
                                (store_delete key (META w))\<rparr>)"
proof -
  let ?m = "insort_key fst (key, \<lparr>size_meta = int (length bs), dateAccessed = now\<rparr>) (store_delete key (META w))"
  let ?w = "w\<lparr>CACHE := insort_key fst (key, bs) (store_delete key (CACHE w)), META := ?m\<rparr>"
  have c: "IDBHelper_set True key bs (CACHE w) True = (Resolved (), insort_key fst (key, bs) (store_delete key (CACHE w)))"
    using key by (intro IDBHelper_set_force) auto
  have m: "IDBHelper_set True key \<lparr>size_meta = int (length bs), dateAccessed = now\<rparr> (META w) True = (Resolved (), ?m)"
    using key by (intro IDBHelper_set_force) auto
  have "unique_keys (META ?w)"
    using uk store_delete_absent [of key "META w"] by (simp add: insort_unique store_delete_unique)
  moreover have "total_meta (META ?w) < MAX_BYTES ?w" using fits by (simp add: MAX_BYTES_def)
  ultimately have "prune ?w = (Resolved (), ?w)" using dbw by (intro prune_below) simp_all
  then show ?thesis using dbw c m by (simp add: setCache_def setMeta_def)
qed

lemma getCache_hit:
  assumes dbw: "db w" and hit: "map_of (CACHE w) key = Some bs"
    and key: "key \<noteq> [] \<or> key \<notin> fst ` set (META w)"
  shows "getCache now key w =
     (Resolved (Val bs),
      w\<lparr>META := insort_key fst (key, \<lparr>size_meta = int (length bs), dateAccessed = now\<rparr>)
                   (store_delete key (META w))\<rparr>)"
  using dbw hit IDBHelper_set_force [OF key]
  by (simp add: getCache_def getCache_try_def IDBHelper_get_def store_get_def setMeta_def)

lemma recency_scenario:
  assumes A: "A \<noteq> []" and d: "A \<noteq> B" "A \<noteq> C" "B \<noteq> C"
    and t: "tB < tC" "tC < tR"
    and room: "int (length a) + int (length b) + int (length c) < int n1 * 2 ^ 20"
    and over: "int n2 * 2 ^ 20 \<le> int (length a) + int (length b) + int (length c)"
    and one: "int (length a) + int (length c) < int n2 * 2 ^ 20"
    and s1: "setCache tA A a (opened n1) = (r1, w1)"
    and s2: "setCache tB B b w1 = (r2, w2)"
    and s3: "setCache tC C c w2 = (r3, w3)"
    and s4: "getCache tR A w3 = (r4, w4)"
    and s5: "prune (w4\<lparr>CacheSize := n2\<rparr>) = (r5, w5)"
  shows "r1 = Resolved () \<and> r2 = Resolved () \<and> r3 = Resolved () \<and> r4 = Resolved (Val a)
       \<and> r5 = Resolved ()
       \<and> store_get B (CACHE w5) = Undefined \<and> store_get B (META w5) = Undefined
       \<and> store_get A (CACHE w5) = Val a
       \<and> store_get A (META w5) = Val \<lparr>size_meta = int (length a), dateAccessed = tR\<rparr>
       \<and> store_get C (CACHE w5) = Val c
       \<and> store_get C (META w5) = Val \<lparr>size_meta = int (length c), dateAccessed = tC\<rparr>"
proof -
  let ?ma = "\<lparr>size_meta = int (length a), dateAccessed = tA\<rparr>"
  let ?mb = "\<lparr>size_meta = int (length b), dateAccessed = tB\<rparr>"
  let ?mc = "\<lparr>size_meta = int (length c), dateAccessed = tC\<rparr>"
  let ?mr = "\<lparr>size_meta = int (length a), dateAccessed = tR\<rparr>"
  define c1 where "c1 = insort_key fst (A, a) (store_delete A [])"
  define m1 where "m1 = insort_key fst (A, ?ma) (store_delete A [])"
  define c2 where "c2 = insort_key fst (B, b) (store_delete B c1)"
  define m2 where "m2 = insort_key fst (B, ?mb) (store_delete B m1)"
  define c3 where "c3 = insort_key fst (C, c) (store_delete C c2)"
  define m3 where "m3 = insort_key fst (C, ?mc) (store_delete C m2)"
  define m4 where "m4 = insort_key fst (A, ?mr) (store_delete A m3)"
  have ms1: "mset m1 = mset [(A, ?ma)]"
    by (simp add: m1_def store_delete_def)
  have ms2: "mset m2 = mset [(A, ?ma), (B, ?mb)]"
    using d by (simp add: m2_def store_delete_def ms1)
  have ms3: "mset m3 = mset [(A, ?ma), (B, ?mb), (C, ?mc)]"
    using d by (simp add: m3_def store_delete_def ms2)
  have ms4: "mset m4 = mset [(B, ?mb), (C, ?mc), (A, ?mr)]"
    using d by (simp add: m4_def store_delete_def ms3)
  have u1: "unique_keys m1" by (rule unique_keys_mset [OF ms1]) (simp add: unique_keys_def)
  have u2: "unique_keys m2" by (rule unique_keys_mset [OF ms2]) (simp add: unique_keys_def d)
  have u3: "unique_keys m3" by (rule unique_keys_mset [OF ms3]) (simp add: unique_keys_def d)
  have u4: "unique_keys m4" by (rule unique_keys_mset [OF ms4]) (use d in \<open>auto simp: unique_keys_def\<close>)
  have tot1: "total_meta m1 = int (length a)"
    using total_meta_mset [OF ms1] by (simp add: total_meta_def)
  have tot2: "total_meta m2 = int (length a) + int (length b)"
    using total_meta_mset [OF ms2] by (simp add: total_meta_def)
  have tot3: "total_meta m3 = int (length a) + int (length b) + int (length c)"
    using total_meta_mset [OF ms3] by (simp add: total_meta_def)
  have tot4: "total_meta m4 = int (length a) + int (length b) + int (length c)"
    using total_meta_mset [OF ms4] by (simp add: total_meta_def)
  have k1: "fst ` set m1 = {A}" using arg_cong [OF ms1, of set_mset] by simp
  have k2: "fst ` set m2 = {A, B}" using arg_cong [OF ms2, of set_mset] by simp
  have k3: "fst ` set m3 = {A, B, C}" using arg_cong [OF ms3, of set_mset] by simp
  have c1: "c1 = [(A, a)]" by (simp add: c1_def store_delete_def)
  have kc1: "fst ` set c1 = {A}" by (simp add: c1)
  have kc2: "fst ` set c2 = {A, B}"
    using d by (auto simp: c2_def c1 store_delete_def set_insort_key)
  have lc3: "map_of c3 = [A \<mapsto> a, B \<mapsto> b, C \<mapsto> c]"
    by (simp add: c3_def c2_def c1_def map_of_upsert)
  have lm4: "map_of m4 = [A \<mapsto> ?ma, B \<mapsto> ?mb, C \<mapsto> ?mc, A \<mapsto> ?mr]"
    by (simp add: m4_def m3_def m2_def m1_def map_of_upsert)
  define W1 where "W1 = (opened n1)\<lparr>CACHE := c1, META := m1\<rparr>"
  define W2 where "W2 = (opened n1)\<lparr>CACHE := c2, META := m2\<rparr>"
  define W3 where "W3 = (opened n1)\<lparr>CACHE := c3, META := m3\<rparr>"
  define W4 where "W4 = (opened n1)\<lparr>CACHE := c3, META := m4\<rparr>"
  have max: "MAX_BYTES W1 = int n1 * 2 ^ 20" "MAX_BYTES W2 = int n1 * 2 ^ 20"
    by (simp_all add: MAX_BYTES_def W1_def W2_def opened_def)
  \<comment> \<open>the three writes fit, so nothing is evicted while they are made\<close>
  have "setCache tA A a (opened n1) =
      (Resolved (), (opened n1)\<lparr>CACHE := insort_key fst (A, a) (store_delete A (CACHE (opened n1))),
         META := insort_key fst (A, ?ma) (store_delete A (META (opened n1)))\<rparr>)"
    by (rule setCache_fits)
       (use room in \<open>simp_all add: opened_def unique_keys_def total_meta_def MAX_BYTES_def store_delete_def\<close>)
  then have e1: "setCache tA A a (opened n1) = (Resolved (), W1)"
    by (simp add: W1_def c1_def m1_def opened_def)
  have "setCache tB B b W1 =
      (Resolved (), W1\<lparr>CACHE := insort_key fst (B, b) (store_delete B (CACHE W1)),
         META := insort_key fst (B, ?mb) (store_delete B (META W1))\<rparr>)"
  proof (rule setCache_fits)
    show "db W1" by (simp add: W1_def opened_def)
    show "unique_keys (META W1)" using u1 by (simp add: W1_def)
    show "B \<noteq> [] \<or> B \<notin> fst ` set (CACHE W1) \<and> B \<notin> fst ` set (META W1)"
      using d by (simp add: W1_def kc1 k1)
    show "total_meta (insort_key fst (B, ?mb) (store_delete B (META W1))) < MAX_BYTES W1"
      using tot2 room unfolding max by (simp add: W1_def m2_def)
  qed
  then have e2: "setCache tB B b W1 = (Resolved (), W2)"
    by (simp add: W1_def W2_def c2_def m2_def)
  have "setCache tC C c W2 =
      (Resolved (), W2\<lparr>CACHE := insort_key fst (C, c) (store_delete C (CACHE W2)),
         META := insort_key fst (C, ?mc) (store_delete C (META W2))\<rparr>)"
  proof (rule setCache_fits)
    show "db W2" by (simp add: W2_def opened_def)
    show "unique_keys (META W2)" using u2 by (simp add: W2_def)
    show "C \<noteq> [] \<or> C \<notin> fst ` set (CACHE W2) \<and> C \<notin> fst ` set (META W2)"
      using d by (simp add: W2_def kc2 k2)
    show "total_meta (insort_key fst (C, ?mc) (store_delete C (META W2))) < MAX_BYTES W2"
      using tot3 room unfolding max by (simp add: W2_def m3_def)
  qed
  then have e3: "setCache tC C c W2 = (Resolved (), W3)"
    by (simp add: W2_def W3_def c3_def m3_def)
  \<comment> \<open>reading A refreshes its record\<close>
  have "getCache tR A W3 =
      (Resolved (Val a), W3\<lparr>META := insort_key fst (A, ?mr) (store_delete A (META W3))\<rparr>)"
  proof (rule getCache_hit)
    show "db W3" by (simp add: W3_def opened_def)
    show "map_of (CACHE W3) A = Some a" using d by (simp add: W3_def lc3)
    show "A \<noteq> [] \<or> A \<notin> fst ` set (META W3)" using A by simp
  qed
  then have e4: "getCache tR A W3 = (Resolved (Val a), W4)"
    by (simp add: W3_def W4_def m4_def)
  \<comment> \<open>the pass under the lower budget\<close>
  let ?V = "W4\<lparr>CacheSize := n2\<rparr>"
  have V: "db ?V" "META ?V = m4" "CACHE ?V = c3" "MAX_BYTES ?V = int n2 * 2 ^ 20"
    by (simp_all add: W4_def opened_def MAX_BYTES_def)
  have srt: "sort_key (\<lambda>x. dateAccessed (snd x)) m4 = [(B, ?mb), (C, ?mc), (A, ?mr)]"
    by (rule sort_key_three) (use ms4 t in simp_all)
  from prune_shape [of ?V] u4 V obtain n where
    n: "n \<le> length m4"
    and res: "prune ?V = (Resolved (),
        ?V\<lparr>META := filter (\<lambda>p. fst p \<notin> fst ` set (take n [(B, ?mb), (C, ?mc), (A, ?mr)])) m4,
           CACHE := filter (\<lambda>p. fst p \<notin> fst ` set (take n [(B, ?mb), (C, ?mc), (A, ?mr)])) c3\<rparr>)"
    and before: "\<forall>m<n. int n2 * 2 ^ 20 \<le> total_meta m4 - total_meta (take m [(B, ?mb), (C, ?mc), (A, ?mr)])"
    and after: "n = length m4 \<or> total_meta m4 - total_meta (take n [(B, ?mb), (C, ?mc), (A, ?mr)]) < int n2 * 2 ^ 20"
    unfolding srt [symmetric] by (auto simp: srt)
  have len: "length m4 = 3" using arg_cong [OF ms4, of size] by simp
  have "n = 1"
  proof -
    have "n \<noteq> 0"
    proof
      assume "n = 0"
      with after len have "total_meta m4 - total_meta [] < int n2 * 2 ^ 20" by simp
      with over tot4 show False by (simp add: total_meta_def)
    qed
    moreover have "\<not> 2 \<le> n"
    proof
      assume "2 \<le> n"
      then have "int n2 * 2 ^ 20 \<le> total_meta m4 - total_meta (take 1 [(B, ?mb), (C, ?mc), (A, ?mr)])"
        using before by (metis One_nat_def Suc_1 Suc_le_lessD)
      with one tot4 show False by (simp add: total_meta_def)
    qed
    ultimately show ?thesis by simp
  qed
  with res have e5: "prune ?V = (Resolved (), ?V\<lparr>META := store_delete B m4, CACHE := store_delete B c3\<rparr>)"
    by (simp add: store_delete_def)
  from s1 e1 have w1: "r1 = Resolved ()" "w1 = W1" by simp_all
  from s2 e2 w1 have w2: "r2 = Resolved ()" "w2 = W2" by simp_all
  from s3 e3 w2 have w3: "r3 = Resolved ()" "w3 = W3" by simp_all
  from s4 e4 w3 have w4: "r4 = Resolved (Val a)" "w4 = W4" by simp_all
  from s5 e5 w4 have w5: "r5 = Resolved ()" "w5 = ?V\<lparr>META := store_delete B m4, CACHE := store_delete B c3\<rparr>"
    by simp_all
  show ?thesis
    using d by (simp add: w1 w2 w3 w4 w5 store_get_def map_of_store_delete lc3 lm4)
qed

lemma unique_keys_eq: "unique_keys st \<Longrightarrow> p \<in> set st \<Longrightarrow> q \<in> set st \<Longrightarrow> fst p = fst q \<Longrightarrow> p = q"
  unfolding unique_keys_def by (metis eq_key_imp_eq_value prod.collapse)

lemma prune_evicts_oldest:
  assumes uk: "unique_keys (META w)" and dbw: "db w"
    and p: "p \<in> set (META w)" "p \<notin> set (META (snd (prune w)))"
    and q: "q \<in> set (META (snd (prune w)))"
  shows "dateAccessed (snd p) \<le> dateAccessed (snd q)"
proof -
  let ?f = "\<lambda>x. dateAccessed (snd x)"
  let ?xs = "sort_key ?f (META w)"
  from prune_shape [OF uk dbw] obtain n where
    "prune w = (Resolved (),
        w\<lparr>META := filter (\<lambda>p. fst p \<notin> fst ` set (take n ?xs)) (META w),
          CACHE := filter (\<lambda>p. fst p \<notin> fst ` set (take n ?xs)) (CACHE w)\<rparr>)"
    by blast
  then have res: "META (snd (prune w)) = filter (\<lambda>p. fst p \<notin> fst ` set (take n ?xs)) (META w)"
    by simp
  have sxs: "set ?xs = set (META w)" by simp
  from p res obtain p' where p': "p' \<in> set (take n ?xs)" "fst p' = fst p" by auto
  then have "p' \<in> set ?xs" by (auto dest: in_set_takeD)
  then have "p' \<in> set (META w)" by simp
  with p' p(1) have "p' = p" using unique_keys_eq [OF uk] by blast
  with p' have pt: "p \<in> set (take n ?xs)" by simp
  from q res have qm: "q \<in> set (META w)" and "fst q \<notin> fst ` set (take n ?xs)" by auto
  then have "q \<notin> set (take n ?xs)" by auto
  moreover have "set ?xs = set (take n ?xs) \<union> set (drop n ?xs)"
    by (metis append_take_drop_id set_append)
  ultimately have qd: "q \<in> set (drop n ?xs)" using qm sxs by blast
  have "sorted (map ?f (take n ?xs @ drop n ?xs))" by simp
  then have "\<forall>x\<in>set (take n ?xs). \<forall>y\<in>set (drop n ?xs). ?f x \<le> ?f y"
    unfolding map_append sorted_append by auto
  with pt qd show ?thesis by blast
qed

section \<open>C3: eviction order\<close>

text \<open>
  C3 as stated takes the order of the writes for the order of recency. Recency is what
  the clock read, in milliseconds: when \<open>B\<close> and \<open>C\<close> are written within the same
  millisecond their dates tie, the stable sort keeps the key order of \<open>getAllKeys\<close>, and
  the pass evicts \<open>C\<close> when its key is the smaller one. Here \<open>A = a\<close>, \<open>B = c\<close>,
  \<open>C = b\<close>: the entry of \<open>b\<close> goes and that of \<open>c\<close> stays.
\<close>

theorem recency_tie_counterexample:
  "setCache_all [(1, ''a'', replicate 400000 0), (2, ''c'', replicate 400000 0),
                 (2, ''b'', replicate 400000 0)] (opened 2) = (Resolved (), tie_w3)
   \<and> getCache 3 ''a'' tie_w3 = (Resolved (Val (replicate 400000 0)), tie_w4)
   \<and> prune (tie_w4\<lparr>CacheSize := 1\<rparr>) = (Resolved (), tie_w5)
   \<and> store_get ''c'' (CACHE tie_w5) = Val (replicate 400000 0)
   \<and> store_get ''c'' (META tie_w5) = Val \<lparr>size_meta = 400000, dateAccessed = 2\<rparr>
   \<and> store_get ''b'' (CACHE tie_w5) = Undefined
   \<and> store_get ''b'' (META tie_w5) = Undefined"
  by (simp add: opened_def tie_w3_def tie_w4_def tie_w5_def model_defs)

text \<open>
  C3, amended. A pass on an open database deletes, from both stores, a prefix of the
  records of \<open>Meta\<close> sorted by ascending \<open>dateAccessed\<close>, so that no deleted record was
  accessed later than a record that is kept. In particular, for distinct keys \<open>A\<close>,
  \<open>B\<close>, \<open>C\<close> with \<open>A\<close> not the empty string, written by \<open>setCache\<close> in that order to
  an empty cache that has room for the three, followed by a \<open>getCache\<close> of \<open>A\<close>, where
  the clock readings of the write of \<open>B\<close>, of the write of \<open>C\<close> and of the read of \<open>A\<close>
  are strictly increasing: a pass under a budget that the three files reach and the files
  of \<open>A\<close> and \<open>C\<close> alone stay below deletes the entries of \<open>B\<close> from \<open>Cache\<close> and
  \<open>Meta\<close> and leaves those of \<open>A\<close> and \<open>C\<close>.
\<close>

theorem eviction_least_recent_first:
  "(unique_keys (META w) \<and> db w \<longrightarrow>
      (\<exists>n\<le>length (META w).
         prune w =
           (Resolved (),
            w\<lparr>META := filter (\<lambda>p. fst p \<notin> fst ` set (take n (sort_key (\<lambda>x. dateAccessed (snd x)) (META w)))) (META w),
              CACHE := filter (\<lambda>p. fst p \<notin> fst ` set (take n (sort_key (\<lambda>x. dateAccessed (snd x)) (META w)))) (CACHE w)\<rparr>))
      \<and> sorted (map (\<lambda>x. dateAccessed (snd x)) (sort_key (\<lambda>x. dateAccessed (snd x)) (META w)))
      \<and> (\<forall>p\<in>set (META w). \<forall>q\<in>set (META (snd (prune w))).
            p \<notin> set (META (snd (prune w))) \<longrightarrow> dateAccessed (snd p) \<le> dateAccessed (snd q)))
   \<and> (A \<noteq> [] \<and> A \<noteq> B \<and> A \<noteq> C \<and> B \<noteq> C \<and> tB < tC \<and> tC < tR
       \<and> int (length a) + int (length b) + int (length c) < int n1 * 2 ^ 20
       \<and> int n2 * 2 ^ 20 \<le> int (length a) + int (length b) + int (length c)
       \<and> int (length a) + int (length c) < int n2 * 2 ^ 20
       \<and> setCache tA A a (opened n1) = (r1, w1)
       \<and> setCache tB B b w1 = (r2, w2)
       \<and> setCache tC C c w2 = (r3, w3)
       \<and> getCache tR A w3 = (r4, w4)
       \<and> prune (w4\<lparr>CacheSize := n2\<rparr>) = (r5, w5)
       \<longrightarrow> r1 = Resolved () \<and> r2 = Resolved () \<and> r3 = Resolved () \<and> r4 = Resolved (Val a)
         \<and> r5 = Resolved ()
         \<and> store_get B (CACHE w5) = Undefined \<and> store_get B (META w5) = Undefined
         \<and> store_get A (CACHE w5) = Val a
         \<and> store_get A (META w5) = Val \<lparr>size_meta = int (length a), dateAccessed = tR\<rparr>
         \<and> store_get C (CACHE w5) = Val c
         \<and> store_get C (META w5) = Val \<lparr>size_meta = int (length c), dateAccessed = tC\<rparr>)"
proof (intro conjI impI)
  assume a: "unique_keys (META w) \<and> db w"
  from prune_shape [of w] a
  show "\<exists>n\<le>length (META w).
         prune w =
           (Resolved (),
            w\<lparr>META := filter (\<lambda>p. fst p \<notin> fst ` set (take n (sort_key (\<lambda>x. dateAccessed (snd x)) (META w)))) (META w),
              CACHE := filter (\<lambda>p. fst p \<notin> fst ` set (take n (sort_key (\<lambda>x. dateAccessed (snd x)) (META w)))) (CACHE w)\<rparr>)"
    by blast
  show "sorted (map (\<lambda>x. dateAccessed (snd x)) (sort_key (\<lambda>x. dateAccessed (snd x)) (META w)))"
    by simp
  show "\<forall>p\<in>set (META w). \<forall>q\<in>set (META (snd (prune w))).
            p \<notin> set (META (snd (prune w))) \<longrightarrow> dateAccessed (snd p) \<le> dateAccessed (snd q)"
    using prune_evicts_oldest [of w] a by blast
next
  assume h: "A \<noteq> [] \<and> A \<noteq> B \<and> A \<noteq> C \<and> B \<noteq> C \<and> tB < tC \<and> tC < tR
       \<and> int (length a) + int (length b) + int (length c) < int n1 * 2 ^ 20
       \<and> int n2 * 2 ^ 20 \<le> int (length a) + int (length b) + int (length c)
       \<and> int (length a) + int (length c) < int n2 * 2 ^ 20
       \<and> setCache tA A a (opened n1) = (r1, w1)
       \<and> setCache tB B b w1 = (r2, w2)
       \<and> setCache tC C c w2 = (r3, w3)
       \<and> getCache tR A w3 = (r4, w4)
       \<and> prune (w4\<lparr>CacheSize := n2\<rparr>) = (r5, w5)"
  have "r1 = Resolved () \<and> r2 = Resolved () \<and> r3 = Resolved () \<and> r4 = Resolved (Val a)
         \<and> r5 = Resolved ()
         \<and> store_get B (CACHE w5) = Undefined \<and> store_get B (META w5) = Undefined
         \<and> store_get A (CACHE w5) = Val a
         \<and> store_get A (META w5) = Val \<lparr>size_meta = int (length a), dateAccessed = tR\<rparr>
         \<and> store_get C (CACHE w5) = Val c
         \<and> store_get C (META w5) = Val \<lparr>size_meta = int (length c), dateAccessed = tC\<rparr>"
    by (rule recency_scenario [of A B C tB tC tR a b c n1 n2 tA r1 w1 r2 w2 r3 w3 r4 w4 r5 w5])
       (use h in blast)+
  then show "r1 = Resolved ()" "r2 = Resolved ()" "r3 = Resolved ()" "r4 = Resolved (Val a)"
    "r5 = Resolved ()" "store_get B (CACHE w5) = Undefined" "store_get B (META w5) = Undefined"
    "store_get A (CACHE w5) = Val a"
    "store_get A (META w5) = Val \<lparr>size_meta = int (length a), dateAccessed = tR\<rparr>"
    "store_get C (CACHE w5) = Val c"
    "store_get C (META w5) = Val \<lparr>size_meta = int (length c), dateAccessed = tC\<rparr>"
    by blast+
qed

theorem eviction_least_recent_first_witness:
  "unique_keys (META two_entries) \<and> db two_entries
   \<and> fst (prune two_entries) = Resolved ()
   \<and> (''a'', \<lparr>size_meta = 600000, dateAccessed = 1\<rparr>) \<in> set (META two_entries)
   \<and> (''b'', \<lparr>size_meta = 600000, dateAccessed = 2\<rparr>) \<in> set (META (snd (prune two_entries)))
   \<and> (''a'', \<lparr>size_meta = 600000, dateAccessed = 1\<rparr>) \<notin> set (META (snd (prune two_entries)))
   \<and> ''a'' \<noteq> [] \<and> ''a'' \<noteq> ''b'' \<and> ''a'' \<noteq> ''c'' \<and> ''b'' \<noteq> ''c'' \<and> (2::int) < 3 \<and> (3::int) < 4
   \<and> setCache 1 ''a'' (replicate 400000 0) (opened 2) = (Resolved (), lru_w1)
   \<and> setCache 2 ''b'' (replicate 400000 0) lru_w1 = (Resolved (), lru_w2)
   \<and> setCache 3 ''c'' (replicate 400000 0) lru_w2 = (Resolved (), lru_w3)
   \<and> getCache 4 ''a'' lru_w3 = (Resolved (Val (replicate 400000 0)), lru_w4)
   \<and> prune (lru_w4\<lparr>CacheSize := 1\<rparr>) = (Resolved (), lru_w5)
   \<and> store_get ''b'' (CACHE lru_w5) = Undefined \<and> store_get ''b'' (META lru_w5) = Undefined
   \<and> store_get ''a'' (CACHE lru_w5) = Val (replicate 400000 0)
   \<and> store_get ''c'' (CACHE lru_w5) = Val (replicate 400000 0)"
proof -
  have runs: "setCache 1 ''a'' (replicate 400000 0) (opened 2) = (Resolved (), lru_w1)"
    "setCache 2 ''b'' (replicate 400000 0) lru_w1 = (Resolved (), lru_w2)"
    "setCache 3 ''c'' (replicate 400000 0) lru_w2 = (Resolved (), lru_w3)"
    "getCache 4 ''a'' lru_w3 = (Resolved (Val (replicate 400000 0)), lru_w4)"
    "prune (lru_w4\<lparr>CacheSize := 1\<rparr>) = (Resolved (), lru_w5)"
    by (simp_all add: opened_def lru_w1_def lru_w2_def lru_w3_def lru_w4_def lru_w5_def model_defs)
  have pr: "prune two_entries = (Resolved (), two_entries\<lparr>META := [(''b'', \<lparr>size_meta = 600000, dateAccessed = 2\<rparr>)], CACHE := [(''b'', replicate 600000 0)]\<rparr>)"
    by (simp add: two_entries_def model_defs)
  have g: "unique_keys (META two_entries) \<and> db two_entries"
    by (simp add: two_entries_def unique_keys_def)
  note inst = eviction_least_recent_first [of two_entries "''a''" "''b''" "''c''" 2 3 4
      "replicate 400000 0" "replicate 400000 0" "replicate 400000 0" 2 1
      1 "Resolved ()" lru_w1 "Resolved ()" lru_w2 "Resolved ()" lru_w3
      "Resolved (Val (replicate 400000 0))" lru_w4 "Resolved ()" lru_w5]
  from inst g have res: "fst (prune two_entries) = Resolved ()"
    by auto
  from inst runs have "store_get ''b'' (CACHE lru_w5) = Undefined \<and> store_get ''b'' (META lru_w5) = Undefined
   \<and> store_get ''a'' (CACHE lru_w5) = Val (replicate 400000 0)
   \<and> store_get ''c'' (CACHE lru_w5) = Val (replicate 400000 0)"
    by simp
  with g runs pr res show ?thesis by (simp add: two_entries_def)
qed

section \<open>C4: what setCache and getCache write\<close>

text \<open>
  For a key other than the empty string the lemmas \<open>setCache_writes\<close> and
  \<open>getCache_hit\<close> above give the writes that C4 describes. For the empty string they are not made once the
  key is cached: \<open>set\<close> resolves and drops the value, with or without \<open>force\<close>.
\<close>

lemma set_empty_key_dropped:
  "[] \<in> fst ` set st \<Longrightarrow> IDBHelper_set True [] v st force = (Resolved (), st)"
  by (simp add: IDBHelper_set_def truthy_def store_getKey_def store_add_def)

lemma setCache_empty_key_dropped:
  assumes "db w" "[] \<in> fst ` set (CACHE w)" "[] \<in> fst ` set (META w)"
  shows "setCache now [] bs w = prune w"
  using assms by (simp add: setCache_def setMeta_def set_empty_key_dropped)

lemma getCache_empty_key_not_refreshed:
  assumes "db w" "map_of (CACHE w) [] = Some bs" "[] \<in> fst ` set (META w)"
  shows "getCache now [] w = (Resolved (Val bs), w)"
  using assms
  by (simp add: getCache_def getCache_try_def IDBHelper_get_def store_get_def setMeta_def
      set_empty_key_dropped)

text \<open>
  C4. For every key and byte sequence, \<open>setCache\<close> overwrites the \<open>Cache\<close> entry, then
  the \<open>Meta\<close> record with the byte length and the current time, then prunes; every
  successful \<open>getCache\<close> returns the stored bytes and overwrites the \<open>Meta\<close> record with
  the current time and the length of the bytes returned. The code at the key \<open>''\<close>:
  a second \<open>setCache\<close> resolves and leaves the first bytes and the first record in place,
  and a \<open>getCache\<close> returns the bytes and leaves the access date as it was.
\<close>

theorem setCache_empty_key_not_written:
  "setCache 1 [] [1] (opened 1) = (Resolved (), empty_key_world)
   \<and> setCache 2 [] [2, 3] empty_key_world = (Resolved (), empty_key_world)
   \<and> getCache 3 [] empty_key_world = (Resolved (Val [1]), empty_key_world)"
  by (simp add: opened_def empty_key_world_def model_defs)

section \<open>C5: overwriting with force\<close>

text \<open>
  Without \<open>force\<close>, \<open>set\<close> on an open database never rejects: on an occupied key it
  leaves the store as it is and its promise pending (or resolved, for the empty string).
  With \<open>force\<close> a key that is not the empty string is overwritten.
\<close>

lemma set_without_force_never_rejects:
  "fst (IDBHelper_set True k v st False) \<noteq> Rejected e"
  by (simp add: IDBHelper_set_def)

lemma set_without_force_occupied:
  "k \<in> fst ` set st \<Longrightarrow>
   IDBHelper_set True k v st False = (if k = [] then Resolved () else Pending, st)"
  by (cases "k = []") (force simp: IDBHelper_set_def truthy_def store_getKey_def store_add_def)+

lemma force_overwrite:
  assumes "k \<noteq> []"
  shows "IDBHelper_set True k v2 (snd (IDBHelper_set True k v1 st False)) True
         = (Resolved (), insort_key fst (k, v2) (store_delete k st))
       \<and> IDBHelper_get True k (insort_key fst (k, v2) (store_delete k st)) = Resolved (Val v2)"
proof -
  have "store_delete k (snd (IDBHelper_set True k v1 st False)) = store_delete k st"
    using store_delete_absent [of k st]
    by (auto simp: IDBHelper_set_def store_add_def store_delete_def filter_insort_triv)
  then show ?thesis
    using assms IDBHelper_set_force [of k "snd (IDBHelper_set True k v1 st False)" v2]
    by (simp add: IDBHelper_get_def store_get_def map_of_upsert)
qed

text \<open>
  C5. After \<open>set(key, v1)\<close>, a \<open>set(key, v2)\<close> with \<open>force\<close> succeeds and \<open>get\<close>
  returns \<open>v2\<close>, whereas without \<open>force\<close> it fails with the key-exists error and the
  value stays \<open>v1\<close>. The code at the key \<open>''\<close>: \<open>getKey\<close> answers the empty string,
  which is falsy, so the existing record goes unnoticed, \<open>add\<close> fails and the promise has
  been resolved already; with \<open>force\<close> the value stays \<open>v1\<close>, and without \<open>force\<close> the
  call resolves. At a key that is not empty the call without \<open>force\<close> leaves the store
  unchanged, but its promise is never rejected: the error is thrown inside the handler.
\<close>

theorem set_force_empty_key_keeps_old_value:
  "IDBHelper_set True [] [1 :: 8 word] [] False = (Resolved (), [([], [1])])
   \<and> IDBHelper_set True [] [2 :: 8 word] [([], [1])] True = (Resolved (), [([], [1])])
   \<and> IDBHelper_get True [] [([], [1 :: 8 word])] = Resolved (Val [1])
   \<and> IDBHelper_set True [] [2 :: 8 word] [([], [1])] False = (Resolved (), [([], [1])])
   \<and> IDBHelper_set True ''k'' [2 :: 8 word] [(''k'', [1])] False = (Pending, [(''k'', [1])])"
  by (simp add: model_defs)

section \<open>C6: a fetch that fails\<close>

text \<open>
  When \<open>fetch\<close> resolves with a response that is not \<open>ok\<close> or has an empty body,
  \<open>preload\<close> rejects with \<open>'Fetch failed.'\<close> and does not call \<open>setCache\<close>.
\<close>

lemma preload_failed_fetch:
  assumes miss: "fst (getCache now1 key w) = Resolved Null
                 \<or> fst (getCache now1 key w) = Resolved (Val [])"
    and bad: "net key = Resolved resp" "\<not> ok resp \<or> arrayBuffer resp = []"
  shows "preload net now1 now2 key w =
     (Rejected FetchFailed, (snd (getCache now1 key w))\<lparr>fetched := fetched (snd (getCache now1 key w)) @ [key]\<rparr>)"
  using assms
  by (cases "getCache now1 key w") (auto simp: preload_def preload_fetch_def Let_def)

text \<open>
  C6. \<open>preload\<close> fails with the fetch error whenever the fetch of the byte source fails
  or succeeds with no bytes. The code when \<open>fetch\<close> itself rejects, as it does on a
  network error: the exception leaves the \<open>async\<close> executor, \<open>reject\<close> is never called,
  and the promise of \<open>preload\<close> stays pending.
\<close>

theorem preload_network_error_never_settles:
  "preload down_net 1 2 ''u'' (opened 1) = (Pending, (opened 1)\<lparr>fetched := [''u'']\<rparr>)"
  by (simp add: down_net_def opened_def model_defs)

section \<open>What the operations leave alone\<close>






lemma IDBHelper_set_force_resolves: "fst (IDBHelper_set True k v st True) = Resolved ()"
  by (simp add: IDBHelper_set_def IDBHelper_del_def)

lemma getCache_cached:
  assumes "db w" "store_get key (CACHE w) = Val bs"
  shows "\<exists>m. getCache now key w = (Resolved (Val bs), w\<lparr>META := m\<rparr>)"
proof -
  obtain r m where s: "IDBHelper_set True key \<lparr>size_meta = int (length bs), dateAccessed = now\<rparr> (META w) True = (r, m)"
    by (cases "IDBHelper_set True key \<lparr>size_meta = int (length bs), dateAccessed = now\<rparr> (META w) True")
  then have "r = Resolved ()" using IDBHelper_set_force_resolves by (metis fst_conv)
  with s assms have "getCache now key w = (Resolved (Val bs), w\<lparr>META := m\<rparr>)"
    by (simp add: getCache_def getCache_try_def IDBHelper_get_def setMeta_def)
  then show ?thesis by (rule exI)
qed





section \<open>C7: preloading twice\<close>









section \<open>C8: getMeta and getCache swallow errors\<close>

text \<open>
  Neither \<open>getMeta\<close> nor \<open>getCache\<close> ever rejects, however the promises they await end:
  a rejection becomes \<open>null\<close>. On the store both always resolve: with the record or the
  bytes when the key is present, with \<open>null\<close> when the database is not open;
  \<open>getCache\<close> gives \<open>null\<close> for a missing key as well, \<open>getMeta\<close> gives \<open>undefined\<close>.
\<close>

lemma getCache_resolves: "\<exists>v. fst (getCache now key w) = Resolved v"
proof (cases "db w")
  case False
  then show ?thesis by (simp add: getCache_def getCache_try_def IDBHelper_get_def)
next
  case True
  show ?thesis
  proof (cases "store_get key (CACHE w)")
    case (Val bs)
    from getCache_cached [OF True Val, of now] show ?thesis by auto
  qed (use True in \<open>simp_all add: getCache_def getCache_try_def IDBHelper_get_def\<close>)
qed

lemma getMeta_getCache_never_reject:
  "(\<forall>e. catch_null p \<noteq> Rejected e)
   \<and> (\<forall>e. fst (getCache_try now got put w) \<noteq> Rejected e)
   \<and> (\<exists>v. getMeta key w = Resolved v)
   \<and> (\<exists>v. fst (getCache now key w) = Resolved v)
   \<and> (\<not> db w \<longrightarrow> getMeta key w = Resolved Null \<and> getCache now key w = (Resolved Null, w))
   \<and> (key \<notin> fst ` set (CACHE w) \<longrightarrow> getCache now key w = (Resolved Null, w))
   \<and> (db w \<and> key \<notin> fst ` set (META w) \<longrightarrow> getMeta key w = Resolved Undefined)
   \<and> (db w \<and> map_of (META w) key = Some meta \<longrightarrow> getMeta key w = Resolved (Val meta))
   \<and> (db w \<and> map_of (CACHE w) key = Some bs \<longrightarrow> fst (getCache now key w) = Resolved (Val bs))"
proof (intro conjI allI impI)
  fix e
  show "catch_null p \<noteq> Rejected e" by (simp add: catch_null_def split: outcome.splits)
  show "fst (getCache_try now got put w) \<noteq> Rejected e"
    by (simp add: getCache_try_def split: outcome.splits jsval.splits prod.splits)
next
  show "\<exists>v. getMeta key w = Resolved v"
    by (simp add: getMeta_def catch_null_def IDBHelper_get_def)
  show "\<exists>v. fst (getCache now key w) = Resolved v" by (rule getCache_resolves)
next
  assume "\<not> db w"
  then show "getMeta key w = Resolved Null" "getCache now key w = (Resolved Null, w)"
    by (simp_all add: getMeta_def catch_null_def getCache_def getCache_try_def IDBHelper_get_def)
next
  assume "key \<notin> fst ` set (CACHE w)"
  then have "map_of (CACHE w) key = None" by (simp add: map_of_eq_None_iff)
  then show "getCache now key w = (Resolved Null, w)"
    by (simp add: getCache_def getCache_try_def IDBHelper_get_def store_get_def)
next
  assume a: "db w \<and> key \<notin> fst ` set (META w)"
  then have "map_of (META w) key = None" by (simp add: map_of_eq_None_iff)
  with a show "getMeta key w = Resolved Undefined"
    by (simp add: getMeta_def catch_null_def IDBHelper_get_def store_get_def)
next
  assume "db w \<and> map_of (META w) key = Some meta"
  then show "getMeta key w = Resolved (Val meta)"
    by (simp add: getMeta_def catch_null_def IDBHelper_get_def store_get_def)
next
  assume a: "db w \<and> map_of (CACHE w) key = Some bs"
  then have "store_get key (CACHE w) = Val bs" by (simp add: store_get_def)
  with a getCache_cached [of w key bs now] show "fst (getCache now key w) = Resolved (Val bs)"
    by auto
qed

text \<open>
  C8. \<open>getMeta\<close> and \<open>getCache\<close> never raise an error: for every key and every outcome
  of the backend, a missing entry included, they return \<open>null\<close>, so that a caller cannot
  tell a missing entry from a backend error. The code on a key that has no record in
  \<open>Meta\<close>: \<open>getMeta\<close>, declared to return \<open>CacheMeta | null\<close>, hands on the
  \<open>undefined\<close> that \<open>get\<close> resolved with, where a database that is not open gives
  \<open>null\<close>; \<open>getCache\<close> returns \<open>null\<close> in both cases.
\<close>

theorem getMeta_absent_returns_undefined:
  "getMeta ''u'' (opened 1) = Resolved Undefined
   \<and> getMeta ''u'' ((opened 1)\<lparr>db := False\<rparr>) = Resolved Null"
  by (simp add: opened_def model_defs)

section \<open>C9: the budget is read at every pass\<close>

lemma prune_changes:
  assumes uk: "unique_keys (META w)" and dbw: "db w"
    and over: "MAX_BYTES w \<le> total_meta (META w)" and ne: "META w \<noteq> []"
  shows "META (snd (prune w)) \<noteq> META w"
proof -
  let ?xs = "sort_key (\<lambda>x. dateAccessed (snd x)) (META w)"
  from prune_shape [OF uk dbw] obtain n where
    res: "prune w = (Resolved (),
        w\<lparr>META := filter (\<lambda>p. fst p \<notin> fst ` set (take n ?xs)) (META w),
          CACHE := filter (\<lambda>p. fst p \<notin> fst ` set (take n ?xs)) (CACHE w)\<rparr>)"
    and after: "n = length (META w) \<or> total_meta (META w) - total_meta (take n ?xs) < MAX_BYTES w"
    by blast
  have n0: "n \<noteq> 0"
  proof
    assume "n = 0"
    with after ne over show False by (simp add: total_meta_def)
  qed
  have xne: "?xs \<noteq> []" using ne by (metis length_0_conv length_sort)
  then have "hd ?xs \<in> set (take n ?xs)" using n0 by (cases ?xs; cases n) simp_all
  moreover have "hd ?xs \<in> set (META w)" using xne by (metis hd_in_set set_sort)
  ultimately have "hd ?xs \<in> set (META w)"
    "hd ?xs \<notin> set (filter (\<lambda>p. fst p \<notin> fst ` set (take n ?xs)) (META w))"
    by auto
  then have "filter (\<lambda>p. fst p \<notin> fst ` set (take n ?xs)) (META w) \<noteq> META w" by metis
  with res show ?thesis by simp
qed

text \<open>
  C9. The budget that \<open>prune\<close> compares with is the configured \<open>CacheSize\<close> times
  \<open>2^20\<close>, read from the settings when the pass runs: whatever the setting was before,
  a pass made after it is changed to \<open>c\<close> deletes nothing exactly when the total is below
  \<open>c * 2^20\<close> (or there is no record), and it ends below \<open>c * 2^20\<close> or with \<open>Meta\<close>
  empty.
\<close>

theorem budget_read_at_each_prune:
  "MAX_BYTES (w\<lparr>CacheSize := c\<rparr>) = int c * 2 ^ 20
   \<and> (unique_keys (META w) \<and> db w \<longrightarrow>
        (prune (w\<lparr>CacheSize := c\<rparr>) = (Resolved (), w\<lparr>CacheSize := c\<rparr>)
           \<longleftrightarrow> total_meta (META w) < int c * 2 ^ 20 \<or> META w = [])
      \<and> (total_meta (META (snd (prune (w\<lparr>CacheSize := c\<rparr>)))) < int c * 2 ^ 20
           \<or> META (snd (prune (w\<lparr>CacheSize := c\<rparr>))) = []))"
proof (intro conjI impI)
  show m: "MAX_BYTES (w\<lparr>CacheSize := c\<rparr>) = int c * 2 ^ 20" by (simp add: MAX_BYTES_def)
  assume a: "unique_keys (META w) \<and> db w"
  let ?w = "w\<lparr>CacheSize := c\<rparr>"
  have uk: "unique_keys (META ?w)" and dbw: "db ?w" using a by simp_all
  obtain r w' where p: "prune ?w = (r, w')" by (cases "prune ?w")
  have r: "r = Resolved ()" using prune_shape [OF uk dbw] p by auto
  show "total_meta (META (snd (prune ?w))) < int c * 2 ^ 20 \<or> META (snd (prune ?w)) = []"
    using prune_total [OF uk p [unfolded r]] p m by simp
  show "prune ?w = (Resolved (), ?w) \<longleftrightarrow> total_meta (META w) < int c * 2 ^ 20 \<or> META w = []"
  proof
    assume same: "prune ?w = (Resolved (), ?w)"
    show "total_meta (META w) < int c * 2 ^ 20 \<or> META w = []"
    proof (rule ccontr)
      assume "\<not> (total_meta (META w) < int c * 2 ^ 20 \<or> META w = [])"
      then have "MAX_BYTES ?w \<le> total_meta (META ?w)" "META ?w \<noteq> []" using m by simp_all
      from prune_changes [OF uk dbw this] same show False by simp
    qed
  next
    assume "total_meta (META w) < int c * 2 ^ 20 \<or> META w = []"
    then show "prune ?w = (Resolved (), ?w)"
    proof
      assume "total_meta (META w) < int c * 2 ^ 20"
      then show ?thesis using prune_below [OF uk dbw] m by simp
    next
      assume "META w = []"
      then show ?thesis using dbw
        by (simp add: prune_def IDBHelper_keys_def store_getAllKeys_def)
    qed
  qed
qed

theorem budget_read_at_each_prune_witness:
  "unique_keys (META two_entries) \<and> db two_entries
   \<and> MAX_BYTES (two_entries\<lparr>CacheSize := 2\<rparr>) = 2097152
   \<and> total_meta (META two_entries) < 2097152
   \<and> prune (two_entries\<lparr>CacheSize := 2\<rparr>) = (Resolved (), two_entries\<lparr>CacheSize := 2\<rparr>)
   \<and> MAX_BYTES (two_entries\<lparr>CacheSize := 1\<rparr>) = 1048576
   \<and> \<not> total_meta (META two_entries) < 1048576 \<and> META two_entries \<noteq> []
   \<and> prune (two_entries\<lparr>CacheSize := 1\<rparr>) \<noteq> (Resolved (), two_entries\<lparr>CacheSize := 1\<rparr>)"
proof -
  have g: "unique_keys (META two_entries) \<and> db two_entries"
    by (simp add: two_entries_def unique_keys_def)
  have t: "total_meta (META two_entries) = 1200000" "META two_entries \<noteq> []"
    by (simp_all add: two_entries_def total_meta_def)
  from budget_read_at_each_prune [where w = two_entries and c = 2] g t
  have a: "MAX_BYTES (two_entries\<lparr>CacheSize := 2\<rparr>) = 2097152"
    "prune (two_entries\<lparr>CacheSize := 2\<rparr>) = (Resolved (), two_entries\<lparr>CacheSize := 2\<rparr>)"
    by simp_all
  from budget_read_at_each_prune [where w = two_entries and c = 1] g t
  have b: "MAX_BYTES (two_entries\<lparr>CacheSize := 1\<rparr>) = 1048576"
    "prune (two_entries\<lparr>CacheSize := 1\<rparr>) \<noteq> (Resolved (), two_entries\<lparr>CacheSize := 1\<rparr>)"
    by simp_all
  from g t a b show ?thesis by simp
qed

section \<open>C10: a miss writes nothing\<close>

text \<open>
  C10. For every key absent from \<open>Cache\<close>, \<open>getCache\<close> returns \<open>null\<close> and leaves the
  state, \<open>Meta\<close> included, as it was.
\<close>

theorem getCache_miss_leaves_meta:
  "key \<notin> fst ` set (CACHE w) \<Longrightarrow> getCache now key w = (Resolved Null, w)"
proof -
  assume "key \<notin> fst ` set (CACHE w)"
  then have "map_of (CACHE w) key = None" by (simp add: map_of_eq_None_iff)
  then show ?thesis
    by (simp add: getCache_def getCache_try_def IDBHelper_get_def store_get_def)
qed

theorem getCache_miss_leaves_meta_witness:
  "''b'' \<notin> fst ` set (CACHE lru_w1) \<and> getCache 7 ''b'' lru_w1 = (Resolved Null, lru_w1)"
proof -
  have a: "''b'' \<notin> fst ` set (CACHE lru_w1)" by (simp add: lru_w1_def opened_def)
  from getCache_miss_leaves_meta [OF a] a show ?thesis by simp
qed

end
